theory Spec2Isabelle
  imports Main "HOL-Library.Sublist"
begin

section \<open>Data model\<close>

text \<open>
  The SBOM command works on a dependency tree that the resolver (Arborist) has already
  loaded. Its nodes and edges are JavaScript objects that refer to each other; the model
  keeps them in an explicit store, a total map from references \<open>'r\<close> to node objects, so
  that the annotations the traversal attaches to shared nodes are visible as updates of
  the store. The objects that \<open>node.package\<close> refers to are kept in a second store, the
  heap of package metadata objects; a node holds the address of its object, and two
  nodes may hold the same one, as a link and its target do. The in-place normalisation
  of \<open>node.package\<close> is an update of that heap, seen through every node that holds the
  address.

  Strings are \<open>string\<close>; a JavaScript value that may be \<open>undefined\<close> or \<open>null\<close> is an
  \<open>option\<close>. A string is truthy when it is not empty.
\<close>

text \<open>An edge of the tree: \<open>edge.from\<close>, \<open>edge.to\<close> (\<open>null\<close> when nothing resolves it),
  \<open>edge.name\<close>, \<open>edge.spec\<close>, \<open>edge.type\<close> and the flags \<open>invalid\<close>, \<open>missing\<close>, \<open>optional\<close>.\<close>

record 'r edge =
  edge_from :: 'r
  edge_to :: "'r option"
  edge_name :: string
  edge_spec :: string
  edge_type :: string
  edge_invalid :: bool
  edge_missing :: bool
  edge_optional :: bool

text \<open>The fields of \<open>node.package\<close> that the document builder reads.\<close>

record package_json =
  description :: "string option"
  homepage :: "string option"
  license :: "string option"

type_synonym addr = nat

type_synonym heap = "addr \<Rightarrow> package_json"

text \<open>
  An Arborist node. \<open>edgesOut\<close> and \<open>children\<close> are JavaScript maps, of which only the
  values are read, in insertion order: they are lists. \<open>package\<close> is the address of the
  object \<open>node.package\<close>. The last three fields are the properties keyed by the symbols
  \<open>_missing\<close>, \<open>_invalid\<close> and \<open>_type\<close>, which the traversal attaches.
\<close>

record 'r node =
  pkgid :: string
  name :: string
  version :: string
  path :: string
  location :: string
  resolved :: "string option"
  integrity :: "string option"
  isRoot :: bool
  isProjectRoot :: bool
  isWorkspace :: bool
  isLink :: bool
  extraneous :: bool
  target :: 'r
  edgesOut :: "'r edge list"
  children :: "'r list"
  package :: addr
  sym_missing :: "string option"
  sym_invalid :: bool
  sym_type :: "string option"

type_synonym 'r store = "'r \<Rightarrow> 'r node"

text \<open>
  The object that \<open>mapEdgesToNodes\<close> creates for a missing dependency:
  \<open>{ name, pkgid, [_missing]: edge.from.pkgid }\<close>, with \<open>_invalid\<close> and \<open>_type\<close> attached
  in the same call. It is fresh, it is no Arborist node, and nothing but the traversal
  queue and the map of visited nodes refers to it, so it is a value and not a store cell.
\<close>

record placeholder =
  ph_name :: string
  ph_pkgid :: string
  ph_missing :: string
  ph_invalid :: bool
  ph_type :: string

text \<open>What the traversal visits: an Arborist node of the store, or a placeholder.\<close>

datatype 'r item = NodeRef 'r | Placeholder placeholder

datatype error = EUSAGE | ESBOMPROBLEMS string | TypeError | LibraryError

text \<open>
  A function that works on a state returns a value and the state it leaves, or throws
  an error and leaves a state: \<open>Inr (x, s)\<close> and \<open>Inl (err, s)\<close>. \<open>state_after\<close> is the
  state of either.
\<close>

definition state_after :: "('e \<times> 's) + ('a \<times> 's) \<Rightarrow> 's" where
  "state_after res = (case res of Inl (err, s) \<Rightarrow> s | Inr (x, s) \<Rightarrow> s)"

text \<open>
  Functions of the packages \<open>normalize-package-data\<close>, \<open>npm-package-arg\<close>, \<open>ssri\<close>,
  \<open>uuid\<close>, \<open>@isaacs/string-locale-compare\<close>, of \<open>os\<close>, of the clock and of the language
  (\<open>String.prototype.toUpperCase\<close>), which are no part of the sources, as parameters;
  \<open>None\<close> is a thrown exception. \<open>normalizeData\<close> works in place on the object it is
  given: \<open>Inr pj\<close> is a call that returns and leaves the object as \<open>pj\<close>, \<open>Inl pj\<close> a call
  that throws and leaves the object as \<open>pj\<close>.
\<close>

record externals =
  localeCompare :: "string \<Rightarrow> string \<Rightarrow> int"
  EOL :: string
  toUpperCase :: "string \<Rightarrow> string"
  normalizeData :: "package_json \<Rightarrow> package_json + package_json"
  npa_escapedName :: "string \<Rightarrow> string option"
  npa_type :: "string \<Rightarrow> string option"
  toPurl :: "string \<Rightarrow> string option"
  ssri_parse :: "string \<Rightarrow> (string \<times> string) option"
  uuid_v4 :: string
  toISOString_now :: string
  npm_version :: string

section \<open>The SPDX document\<close>

record externalRef =
  referenceCategory :: string
  referenceType :: string
  referenceLocator :: string

record checksum =
  algorithm :: string
  checksumValue :: string

record spdx_package =
  p_name :: string
  p_SPDXID :: string
  versionInfo :: string
  packageFileName :: string
  p_description :: "string option"
  primaryPackagePurpose :: "string option"
  downloadLocation :: string
  filesAnalyzed :: bool
  homePage :: string
  licenseDeclared :: string
  externalRefs :: "externalRef list"
  checksums :: "checksum list option"

record relationship =
  spdxElementId :: string
  relatedSpdxElement :: string
  relationshipType :: string

record creationInfo =
  created :: string
  creators :: "string list"

record bom =
  spdxVersion :: string
  dataLicense :: string
  SPDXID :: string
  bom_name :: string
  documentNamespace :: string
  creationInfo :: creationInfo
  documentDescribes :: "string list"
  packages :: "spdx_package list"
  relationships :: "relationship list"

definition SPDX_SCHEMA_VERSION :: string where
  "SPDX_SCHEMA_VERSION = ''SPDX-2.3''"

definition SPDX_DATA_LICENSE :: string where
  "SPDX_DATA_LICENSE = ''CC0-1.0''"

definition SPDX_IDENTIFER :: string where
  "SPDX_IDENTIFER = ''SPDXRef-DOCUMENT''"

section \<open>sbom-spdx.js\<close>

text \<open>JavaScript truthiness of a string that may be undefined, and \<open>x || d\<close>.\<close>

definition truthy :: "string option \<Rightarrow> bool" where
  "truthy x = (case x of None \<Rightarrow> False | Some s \<Rightarrow> s \<noteq> [])"

definition or_else :: "string option \<Rightarrow> string \<Rightarrow> string" where
  "or_else x d = (case x of None \<Rightarrow> d | Some s \<Rightarrow> if s = [] then d else s)"

text \<open>
  \<open>toSpdxID\<close>: \<open>replace(/^@/, '')\<close> drops one leading at-sign, \<open>replace(/\//g, '.')\<close>
  turns every slash into a dot, \<open>replace(/@/g, '-')\<close> every remaining at-sign into a
  hyphen.
\<close>

definition strip_scope :: "string \<Rightarrow> string" where
  "strip_scope s = (case s of [] \<Rightarrow> [] | c # cs \<Rightarrow> if c = CHR ''@'' then cs else c # cs)"

definition slash_to_dot :: "char \<Rightarrow> char" where
  "slash_to_dot c = (if c = CHR ''/'' then CHR ''.'' else c)"

definition at_to_dash :: "char \<Rightarrow> char" where
  "at_to_dash c = (if c = CHR ''@'' then CHR ''-'' else c)"

definition toSpdxID :: "string \<Rightarrow> string" where
  "toSpdxID i =
     (let name0 = strip_scope i;
          name1 = map slash_to_dot name0;
          name2 = map at_to_dash name1
      in ''SPDXRef-Package-'' @ name2)"

text \<open>\<open>toSpdxRelationship(node, edge)\<close>; \<open>None\<close> is the \<open>null\<close> of an edge without target.\<close>

definition relationship_type :: "string \<Rightarrow> string" where
  "relationship_type t =
     (if t = ''peer'' then ''HAS_PREREQUISITE''
      else if t = ''optional'' then ''OPTIONAL_DEPENDENCY_OF''
      else if t = ''dev'' then ''DEV_DEPENDENCY_OF''
      else ''DEPENDS_ON'')"

definition toSpdxRelationship :: "'r store \<Rightarrow> 'r \<Rightarrow> 'r edge \<Rightarrow> relationship option" where
  "toSpdxRelationship st n e =
     (case edge_to e of
        None \<Rightarrow> None
      | Some t \<Rightarrow>
          Some \<lparr> spdxElementId = toSpdxID (pkgid (st n)),
                 relatedSpdxElement = toSpdxID (pkgid (st t)),
                 relationshipType = relationship_type (edge_type e) \<rparr>)"

text \<open>\<open>isGitNode\<close>: an exception of \<open>npa\<close> is caught and gives \<open>false\<close>.\<close>

definition isGitNode :: "externals \<Rightarrow> 'r node \<Rightarrow> bool" where
  "isGitNode X n =
     (if \<not> truthy (resolved n) then False
      else (case npa_type X (the (resolved n)) of
              None \<Rightarrow> False
            | Some t \<Rightarrow> t = ''git'' \<or> t = ''hosted''))"

text \<open>
  \<open>toSpdxItem(node, { packageType })\<close>. The first statement normalises the object
  \<open>node.package\<close> in place, so the function works on the heap; the fields of the record
  are read from the object of the heap after that. The second statement prints the
  licence on the error stream, which the model leaves out.
\<close>

definition toSpdxItem ::
  "externals \<Rightarrow> 'r store \<Rightarrow> heap \<Rightarrow> 'r \<Rightarrow> string option
   \<Rightarrow> (error \<times> heap) + (spdx_package \<times> heap)" where
  "toSpdxItem X st h r packageType =
     (let n = st r in
      case normalizeData X (h (package n)) of
        Inl pj \<Rightarrow> Inl (LibraryError, h(package n := pj))
      | Inr pj \<Rightarrow>
          let h' = h(package n := pj);
              pj' = h' (package n);
              i = pkgid n
          in (case toPurl X i of
                None \<Rightarrow> Inl (LibraryError, h')
              | Some purl \<Rightarrow>
                  let pkg = \<lparr>
                        p_name = name n,
                        p_SPDXID = toSpdxID i,
                        versionInfo = version n,
                        packageFileName = location n,
                        p_description =
                          (if truthy (description pj') then description pj' else None),
                        primaryPackagePurpose =
                          (if truthy packageType then Some (toUpperCase X (the packageType))
                           else None),
                        downloadLocation =
                          or_else (if isLink n then None else resolved n) ''NOASSERTION'',
                        filesAnalyzed = False,
                        homePage = or_else (homepage pj') ''NOASSERTION'',
                        licenseDeclared = or_else (license pj') ''NOASSERTION'',
                        externalRefs =
                          [\<lparr> referenceCategory = ''PACKAGE-MANAGER'',
                              referenceType = ''npm'',
                              referenceLocator = i \<rparr>,
                           \<lparr> referenceCategory = ''PACKAGE-MANAGER'',
                              referenceType = ''purl'',
                              referenceLocator =
                                purl @ (if isGitNode X n
                                        then ''?vcs_url='' @ the (resolved n) else '''') \<rparr>],
                        checksums = None \<rparr>
                  in if truthy (integrity n)
                     then (case ssri_parse X (the (integrity n)) of
                             None \<Rightarrow> Inl (TypeError, h')
                           | Some (alg, hex) \<Rightarrow>
                               Inr (pkg\<lparr>checksums :=
                                           Some [\<lparr> algorithm = toUpperCase X alg,
                                                    checksumValue = hex \<rparr>]\<rparr>, h'))
                     else Inr (pkg, h')))"

text \<open>
  \<open>spdxOutput({ npm, nodes, packageType })\<close>. \<open>nodes.find(node => node.isRoot)\<close>: a
  placeholder has no \<open>isRoot\<close>.
\<close>

definition item_isRoot :: "'r store \<Rightarrow> 'r item \<Rightarrow> bool" where
  "item_isRoot st i = (case i of NodeRef r \<Rightarrow> isRoot (st r) | Placeholder p \<Rightarrow> False)"

definition item_pkgid :: "'r store \<Rightarrow> 'r item \<Rightarrow> string" where
  "item_pkgid st i = (case i of NodeRef r \<Rightarrow> pkgid (st r) | Placeholder p \<Rightarrow> ph_pkgid p)"

fun find_root :: "'r store \<Rightarrow> 'r item list \<Rightarrow> 'r option" where
  "find_root st [] = None"
| "find_root st (NodeRef r # ns) = (if isRoot (st r) then Some r else find_root st ns)"
| "find_root st (Placeholder p # ns) = find_root st ns"

text \<open>
  The relationships of one node: its outgoing edges, without those whose target's
  \<open>pkgid\<close> is the \<open>pkgid\<close> of no node of the list (\<open>edge.to?.pkgid\<close> is \<open>undefined\<close> for an
  edge without target, which is the \<open>pkgid\<close> of no node), each turned into a record, without
  the \<open>null\<close>s.
\<close>

definition edge_in_list :: "'r store \<Rightarrow> 'r item list \<Rightarrow> 'r edge \<Rightarrow> bool" where
  "edge_in_list st nodes e =
     (case edge_to e of
        None \<Rightarrow> False
      | Some t \<Rightarrow> List.find (\<lambda>n. item_pkgid st n = pkgid (st t)) nodes \<noteq> None)"

definition node_relationships :: "'r store \<Rightarrow> 'r item list \<Rightarrow> 'r \<Rightarrow> relationship list" where
  "node_relationships st nodes r =
     List.map_filter (toSpdxRelationship st r) (filter (edge_in_list st nodes) (edgesOut (st r)))"

text \<open>A placeholder has no \<open>edgesOut\<close>: \<open>node.edgesOut.values()\<close> throws a TypeError.\<close>

fun all_relationships :: "'r store \<Rightarrow> 'r item list \<Rightarrow> 'r item list \<Rightarrow> error + relationship list" where
  "all_relationships st nodes [] = Inr []"
| "all_relationships st nodes (Placeholder p # ns) = Inl TypeError"
| "all_relationships st nodes (NodeRef r # ns) =
     (case all_relationships st nodes ns of
        Inl e \<Rightarrow> Inl e
      | Inr rs \<Rightarrow> Inr (node_relationships st nodes r @ rs))"

text \<open>
  \<open>childNodes.map(toSpdxItem)\<close>: \<open>map\<close> calls \<open>toSpdxItem(node, index, array)\<close>, and the
  \<open>packageType\<close> of a number is \<open>undefined\<close>. A placeholder has no \<open>package\<close>.
\<close>

fun child_items ::
  "externals \<Rightarrow> 'r store \<Rightarrow> heap \<Rightarrow> 'r item list \<Rightarrow> (error \<times> heap) + (spdx_package list \<times> heap)" where
  "child_items X st h [] = Inr ([], h)"
| "child_items X st h (Placeholder p # ns) = Inl (TypeError, h)"
| "child_items X st h (NodeRef r # ns) =
     (case toSpdxItem X st h r None of
        Inl err \<Rightarrow> Inl err
      | Inr (p, h') \<Rightarrow>
          (case child_items X st h' ns of
             Inl err \<Rightarrow> Inl err
           | Inr (ps, h'') \<Rightarrow> Inr (p # ps, h'')))"

definition spdxOutput ::
  "externals \<Rightarrow> 'r store \<Rightarrow> heap \<Rightarrow> 'r item list \<Rightarrow> string option
   \<Rightarrow> (error \<times> heap) + (bom \<times> heap)" where
  "spdxOutput X st h nodes packageType =
     (case find_root st nodes of
        None \<Rightarrow> Inl (TypeError, h)
      | Some rootNode \<Rightarrow>
          let childNodes = filter (\<lambda>n. \<not> item_isRoot st n) nodes;
              rootID = pkgid (st rootNode)
          in (case npa_escapedName X rootID of
                None \<Rightarrow> Inl (LibraryError, h)
              | Some escapedName \<Rightarrow>
                  let ns = ''http://spdx.org/spdxdocs/'' @ escapedName @ ''-''
                             @ version (st rootNode) @ ''-'' @ uuid_v4 X
                  in (case all_relationships st nodes nodes of
                        Inl e \<Rightarrow> Inl (e, h)
                      | Inr rels \<Rightarrow>
                          (case toSpdxItem X st h rootNode packageType of
                             Inl err \<Rightarrow> Inl err
                           | Inr (rootItem, h1) \<Rightarrow>
                               (case child_items X st h1 childNodes of
                                  Inl err \<Rightarrow> Inl err
                                | Inr (items, h2) \<Rightarrow>
                                    Inr (\<lparr> spdxVersion = SPDX_SCHEMA_VERSION,
                                           dataLicense = SPDX_DATA_LICENSE,
                                           SPDXID = SPDX_IDENTIFER,
                                           bom_name = rootID,
                                           documentNamespace = ns,
                                           creationInfo =
                                             \<lparr> created = toISOString_now X,
                                               creators = [''Tool: npm/cli-'' @ npm_version X] \<rparr>,
                                           documentDescribes = [toSpdxID rootID],
                                           packages = rootItem # items,
                                           relationships =
                                             \<lparr> spdxElementId = SPDX_IDENTIFER,
                                               relatedSpdxElement = toSpdxID rootID,
                                               relationshipType = ''DESCRIBES'' \<rparr> # rels \<rparr>,
                                         h2))))))"

section \<open>sbom.js\<close>

text \<open>
  The configuration that \<open>exec\<close> reads: \<open>sbom-format\<close>, \<open>omit\<close>, \<open>workspacesEnabled\<close>,
  \<open>package-type\<close>, and the workspace nodes that Arborist's \<open>workspaceNodes\<close> returns for
  the selected workspaces (\<open>undefined\<close> when none is selected).
\<close>

record 'r config =
  sbom_format :: "string option"
  omit :: "string list"
  workspacesEnabled :: bool
  wsNodes :: "'r list option"
  package_type :: "string option"

text \<open>
  \<open>filterBySelectedWorkspaces\<close>. The first test reads \<open>edge.to.isWorkspace\<close> without
  asking whether \<open>edge.to\<close> is there: on an edge without target it throws a TypeError.
\<close>

definition filterBySelectedWorkspaces :: "'r config \<Rightarrow> 'r store \<Rightarrow> 'r edge \<Rightarrow> error + bool" where
  "filterBySelectedWorkspaces cfg st e =
     (case (if \<not> workspacesEnabled cfg \<and> isProjectRoot (st (edge_from e))
            then (case edge_to e of
                    None \<Rightarrow> Inl TypeError
                  | Some t \<Rightarrow> Inr (isWorkspace (st t)))
            else Inr False) of
        Inl err \<Rightarrow> Inl err
      | Inr True \<Rightarrow> Inr False
      | Inr False \<Rightarrow>
          (if (case wsNodes cfg of None \<Rightarrow> True | Some ws \<Rightarrow> ws = []) then Inr True
           else if isProjectRoot (st (edge_from e))
           then Inr (case edge_to e of
                       None \<Rightarrow> False
                     | Some t \<Rightarrow> isWorkspace (st t) \<and> (case wsNodes cfg of
                                                          None \<Rightarrow> False
                                                        | Some ws \<Rightarrow> target (st t) \<in> set ws))
           else Inr True))"

fun filter_workspaces :: "'r config \<Rightarrow> 'r store \<Rightarrow> 'r edge list \<Rightarrow> error + 'r edge list" where
  "filter_workspaces cfg st [] = Inr []"
| "filter_workspaces cfg st (e # es) =
     (case filterBySelectedWorkspaces cfg st e of
        Inl err \<Rightarrow> Inl err
      | Inr b \<Rightarrow>
          (case filter_workspaces cfg st es of
             Inl err \<Rightarrow> Inl err
           | Inr r \<Rightarrow> Inr (if b then e # r else r)))"

definition filterByEdgesTypes :: "'r config \<Rightarrow> 'r edge \<Rightarrow> bool" where
  "filterByEdgesTypes cfg e = (edge_type e \<notin> set (omit cfg))"

text \<open>
  \<open>mapEdgesToNodes\<close>: the node the edge links to, annotated in the store, or a new
  placeholder. Writing a property of \<open>undefined\<close> throws a TypeError. The state is the
  store of the nodes and the set \<open>seenPaths\<close>.
\<close>

definition mapEdgesToNodes ::
  "'r store \<Rightarrow> string set \<Rightarrow> 'r edge
   \<Rightarrow> (error \<times> 'r store \<times> string set) + ('r item \<times> 'r store \<times> string set)" where
  "mapEdgesToNodes st seenPaths e =
     (if edge_missing e \<or> (edge_optional e \<and> edge_to e = None)
      then Inr (Placeholder \<lparr> ph_name = edge_name e,
                               ph_pkgid = edge_name e @ ''@'' @ edge_spec e,
                               ph_missing = pkgid (st (edge_from e)),
                               ph_invalid = edge_invalid e,
                               ph_type = edge_type e \<rparr>,
                st, seenPaths)
      else (case edge_to e of
              None \<Rightarrow> Inl (TypeError, st, seenPaths)
            | Some t \<Rightarrow>
                let n1 = (if edge_invalid e then (st t)\<lparr>sym_invalid := True\<rparr> else st t);
                    n2 = n1\<lparr>sym_type := Some (edge_type e)\<rparr>
                in Inr (NodeRef t, st(t := n2),
                        if path n2 \<noteq> [] then insert (path n2) seenPaths else seenPaths)))"

fun map_edges ::
  "'r store \<Rightarrow> string set \<Rightarrow> 'r edge list
   \<Rightarrow> (error \<times> 'r store \<times> string set) + ('r item list \<times> 'r store \<times> string set)" where
  "map_edges st seenPaths [] = Inr ([], st, seenPaths)"
| "map_edges st seenPaths (e # es) =
     (case mapEdgesToNodes st seenPaths e of
        Inl err \<Rightarrow> Inl err
      | Inr (i, st', seenPaths') \<Rightarrow>
          (case map_edges st' seenPaths' es of
             Inl err \<Rightarrow> Inl err
           | Inr (is, st'', seenPaths'') \<Rightarrow> Inr (i # is, st'', seenPaths'')))"

definition appendExtraneousChildren :: "'r store \<Rightarrow> 'r \<Rightarrow> string set \<Rightarrow> 'r item list" where
  "appendExtraneousChildren st n seenPaths =
     map NodeRef (filter (\<lambda>i. path (st i) \<notin> seenPaths \<and> extraneous (st i)) (children (st n)))"

text \<open>
  \<open>sort(sortAlphabetically)\<close>: a stable sort by \<open>pkgid\<close>, with the comparison of the
  package \<open>@isaacs/string-locale-compare\<close> as the parameter \<open>cmp\<close>.
\<close>

fun insert_sorted :: "(string \<Rightarrow> string \<Rightarrow> int) \<Rightarrow> 'r store \<Rightarrow> 'r item \<Rightarrow> 'r item list \<Rightarrow> 'r item list" where
  "insert_sorted cmp st x [] = [x]"
| "insert_sorted cmp st x (y # ys) =
     (if cmp (item_pkgid st x) (item_pkgid st y) \<le> 0 then x # y # ys
      else y # insert_sorted cmp st x ys)"

fun sortAlphabetically :: "(string \<Rightarrow> string \<Rightarrow> int) \<Rightarrow> 'r store \<Rightarrow> 'r item list \<Rightarrow> 'r item list" where
  "sortAlphabetically cmp st [] = []"
| "sortAlphabetically cmp st (x # xs) = insert_sorted cmp st x (sortAlphabetically cmp st xs)"

text \<open>
  \<open>getChildren(node)\<close> for an Arborist node (for a placeholder it returns \<open>[]\<close>, see
  \<open>breadth\<close>): the edges of \<open>node.target\<close>, filtered by workspace and by \<open>omit\<close>, mapped to
  nodes, with the extraneous children of \<open>node\<close> appended, sorted.
\<close>

definition getChildren ::
  "(string \<Rightarrow> string \<Rightarrow> int) \<Rightarrow> 'r config \<Rightarrow> 'r store \<Rightarrow> 'r
   \<Rightarrow> (error \<times> 'r store) + ('r item list \<times> 'r store)" where
  "getChildren cmp cfg st n =
     (case filter_workspaces cfg st (edgesOut (st (target (st n)))) of
        Inl err \<Rightarrow> Inl (err, st)
      | Inr es \<Rightarrow>
          (case map_edges st {} (filter (filterByEdgesTypes cfg) es) of
             Inl (err, st', seenPaths) \<Rightarrow> Inl (err, st')
           | Inr (kids, st', seenPaths) \<Rightarrow>
               Inr (sortAlphabetically cmp st' (kids @ appendExtraneousChildren st' n seenPaths),
                    st')))"

text \<open>\<open>findErrors(node)\<close>. A placeholder has no \<open>path\<close>: the template prints \<open>undefined\<close>.\<close>

definition findErrors :: "'r store \<Rightarrow> 'r item \<Rightarrow> string list" where
  "findErrors st i =
     (case i of
        NodeRef r \<Rightarrow>
          (if truthy (sym_missing (st r))
              \<and> \<not> (sym_type (st r) = Some ''optional'' \<or> sym_type (st r) = Some ''peerOptional'')
           then [''missing: '' @ pkgid (st r) @ '', required by '' @ the (sym_missing (st r))]
           else [])
          @ (if sym_invalid (st r) then [''invalid: '' @ pkgid (st r) @ '' '' @ path (st r)] else [])
      | Placeholder p \<Rightarrow>
          (if ph_missing p \<noteq> [] \<and> \<not> (ph_type p = ''optional'' \<or> ph_type p = ''peerOptional'')
           then [''missing: '' @ ph_pkgid p @ '', required by '' @ ph_missing p]
           else [])
          @ (if ph_invalid p then [''invalid: '' @ ph_pkgid p @ '' undefined''] else []))"

text \<open>
  The two accumulators of \<open>exec\<close>: \<open>seenNodes\<close>, a JavaScript \<open>Map\<close> from \<open>node.path\<close>
  (\<open>undefined\<close> for a placeholder) to the node, and \<open>errors\<close>, a JavaScript \<open>Set\<close> of lines.
  Both keep the order of first insertion.
\<close>

record 'r visits =
  seenNodes :: "(string option \<times> 'r item) list"
  errors :: "string list"

fun Map_set :: "'k \<Rightarrow> 'v \<Rightarrow> ('k \<times> 'v) list \<Rightarrow> ('k \<times> 'v) list" where
  "Map_set k v [] = [(k, v)]"
| "Map_set k v ((k', v') # m) = (if k' = k then (k, v) # m else (k', v') # Map_set k v m)"

definition Set_add :: "'a \<Rightarrow> 'a list \<Rightarrow> 'a list" where
  "Set_add x xs = (if x \<in> set xs then xs else xs @ [x])"

definition item_path :: "'r store \<Rightarrow> 'r item \<Rightarrow> string option" where
  "item_path st i = (case i of NodeRef r \<Rightarrow> Some (path (st r)) | Placeholder p \<Rightarrow> None)"

definition visit :: "'r store \<Rightarrow> 'r item \<Rightarrow> 'r visits \<Rightarrow> 'r visits" where
  "visit st i v =
     \<lparr> seenNodes = Map_set (item_path st i) i (seenNodes v),
       errors = fold Set_add (findErrors st i) (errors v) \<rparr>"

text \<open>
  Modelled from the spec: the breadth-first driver \<open>breadth\<close> of the package \<open>treeverse\<close>,
  which is no part of the sources. It takes nodes from the front of a queue that starts
  with the tree; a node it has seen before is skipped; otherwise the node is visited,
  then its children are computed and appended to the queue. \<open>seen\<close> holds the Arborist
  nodes met so far; a placeholder is a new object each time and is never seen before.
  The result is the set of the nodes met and the accumulators of \<open>visit\<close>, with the store
  of the nodes.
\<close>

function breadth ::
  "(string \<Rightarrow> string \<Rightarrow> int) \<Rightarrow> 'r::finite config \<Rightarrow> 'r store \<Rightarrow> 'r set \<Rightarrow> 'r item list \<Rightarrow> 'r visits
   \<Rightarrow> (error \<times> 'r store) + (('r set \<times> 'r visits) \<times> 'r store)" where
  "breadth cmp cfg st seen [] v = Inr ((seen, v), st)"
| "breadth cmp cfg st seen (Placeholder p # q) v =
     breadth cmp cfg st seen q (visit st (Placeholder p) v)"
| "breadth cmp cfg st seen (NodeRef r # q) v =
     (if r \<in> seen then breadth cmp cfg st seen q v
      else (case getChildren cmp cfg st r of
              Inl err \<Rightarrow> Inl err
            | Inr (kids, st') \<Rightarrow>
                breadth cmp cfg st' (insert r seen) (q @ kids) (visit st (NodeRef r) v)))"
  by pat_completeness auto
termination
proof (relation "(\<lambda>(cmp, cfg, st, seen, q, v). card (- seen)) <*mlex*>
                 measure (\<lambda>(cmp, cfg, st, seen, q, v). length q)")
  show "wf ((\<lambda>(cmp, cfg, st, seen, q, v). card (- seen)) <*mlex*>
            measure (\<lambda>(cmp :: string \<Rightarrow> string \<Rightarrow> int, cfg :: 'a config, st :: 'a store,
                        seen :: 'a set, q :: 'a item list, v :: 'a visits). length q))"
    by (simp add: wf_mlex)
next
  fix cmp :: "string \<Rightarrow> string \<Rightarrow> int" and cfg :: "'a config" and st st' :: "'a store"
    and seen :: "'a set" and r :: 'a and q kids :: "'a item list" and v :: "'a visits"
  assume "r \<notin> seen"
  then have "r \<in> - seen"
    by simp
  then have "card (- seen - {r}) < card (- seen)"
    by (rule card_Diff1_less [OF finite])
  then have "card (- insert r seen) < card (- seen)"
    by (simp only: Compl_insert)
  then show "((cmp, cfg, st', insert r seen, q @ kids, visit st (NodeRef r) v),
              cmp, cfg, st, seen, NodeRef r # q, v)
             \<in> (\<lambda>(cmp, cfg, st, seen, q, v). card (- seen)) <*mlex*>
               measure (\<lambda>(cmp, cfg, st, seen, q, v). length q)"
    by (simp add: mlex_less)
qed (simp_all add: mlex_leq)

text \<open>\<open>Array.prototype.join\<close>.\<close>

fun join :: "string \<Rightarrow> string list \<Rightarrow> string" where
  "join sep [] = []"
| "join sep [x] = x"
| "join sep (x # y # ys) = x @ sep @ join sep (y # ys)"

text \<open>
  \<open>buildResponse(items)\<close>. The CycloneDX builder is in \<open>../utils/sbom-cyclonedx.js\<close>,
  which is no part of the sources: it is the parameter \<open>cyclonedxOutput\<close>, a function on
  the store of the nodes and the heap of their package metadata.
\<close>

datatype 'c response = CycloneDX 'c | SPDX bom

type_synonym ('r, 'c) builder =
  "'r store \<Rightarrow> heap \<Rightarrow> 'r item list \<Rightarrow> string option
   \<Rightarrow> (error \<times> 'r store \<times> heap) + ('c \<times> 'r store \<times> heap)"

definition buildResponse ::
  "externals \<Rightarrow> ('r, 'c) builder \<Rightarrow> 'r config \<Rightarrow> 'r store \<Rightarrow> heap \<Rightarrow> 'r item list
   \<Rightarrow> (error \<times> 'r store \<times> heap) + ('c response \<times> 'r store \<times> heap)" where
  "buildResponse X cyclonedxOutput cfg st h items =
     (if sbom_format cfg = Some ''cyclonedx''
      then (case cyclonedxOutput st h items (package_type cfg) of
              Inl err \<Rightarrow> Inl err
            | Inr (d, st', h') \<Rightarrow> Inr (CycloneDX d, st', h'))
      else (case spdxOutput X st h items (package_type cfg) of
              Inl (err, h') \<Rightarrow> Inl (err, st, h')
            | Inr (b, h') \<Rightarrow> Inr (SPDX b, st, h')))"

definition item_missing :: "'r store \<Rightarrow> 'r item \<Rightarrow> bool" where
  "item_missing st i =
     (case i of NodeRef r \<Rightarrow> truthy (sym_missing (st r)) | Placeholder p \<Rightarrow> ph_missing p \<noteq> [])"

text \<open>
  The traversal of \<open>exec\<close>: \<open>breadth({ tree, getChildren, visit })\<close> with \<open>seenNodes\<close> and
  \<open>errors\<close> empty.
\<close>

definition walk ::
  "externals \<Rightarrow> 'r::finite config \<Rightarrow> 'r store \<Rightarrow> 'r
   \<Rightarrow> (error \<times> 'r store) + (('r set \<times> 'r visits) \<times> 'r store)" where
  "walk X cfg st tree =
     breadth (localeCompare X) cfg st {} [NodeRef tree] \<lparr>seenNodes = [], errors = []\<rparr>"

text \<open>
  \<open>exec\<close>, from the tree that Arborist has loaded: the traversal from \<open>tree\<close>, the error
  gate, and the response built from the visited nodes that are not missing. The result
  is the response that \<open>exec\<close> hands to \<open>npm.output\<close>, or the error it throws, with the
  store of the nodes and the heap of their package metadata as the run leaves them.
\<close>

definition exec ::
  "externals \<Rightarrow> ('r, 'c) builder \<Rightarrow> 'r::finite config \<Rightarrow> 'r store \<Rightarrow> heap \<Rightarrow> 'r
   \<Rightarrow> (error \<times> 'r store \<times> heap) + ('c response \<times> 'r store \<times> heap)" where
  "exec X cyclonedxOutput cfg st h tree =
     (if \<not> truthy (sbom_format cfg) then Inl (EUSAGE, st, h)
      else (case walk X cfg st tree of
              Inl (err, st') \<Rightarrow> Inl (err, st', h)
            | Inr ((seen, v), st') \<Rightarrow>
                if errors v \<noteq> []
                then Inl (ESBOMPROBLEMS (join (EOL X) (errors v)), st', h)
                else buildResponse X cyclonedxOutput cfg st' h
                       (filter (\<lambda>n. \<not> item_missing st' n) (map snd (seenNodes v)))))"

section \<open>Example trees\<close>

text \<open>Four references, and the values the examples share.\<close>

datatype ref = R0 | R1 | R2 | R3

instance ref :: finite
proof
  have "(UNIV :: ref set) = {R0, R1, R2, R3}"
    using ref.exhaust by auto
  then show "finite (UNIV :: ref set)"
    by (metis finite.emptyI finite.insertI)
qed

text \<open>
  The address of the package metadata of the node at a reference. A link is made with
  the reference of its target, so it holds the object of its target.
\<close>

definition addr_of :: "ref \<Rightarrow> addr" where
  "addr_of r = (case r of R0 \<Rightarrow> 0 | R1 \<Rightarrow> 1 | R2 \<Rightarrow> 2 | R3 \<Rightarrow> 3)"

definition ex_node :: "string \<Rightarrow> string \<Rightarrow> ref \<Rightarrow> ref node" where
  "ex_node nm ver r =
     \<lparr> pkgid = nm @ ''@'' @ ver, name = nm, version = ver,
       path = ''/app/node_modules/'' @ nm, location = ''node_modules/'' @ nm,
       resolved = Some (''https://registry.npmjs.org/'' @ nm), integrity = None,
       isRoot = False, isProjectRoot = False, isWorkspace = False, isLink = False,
       extraneous = False, target = r, edgesOut = [], children = [],
       package = addr_of r,
       sym_missing = None, sym_invalid = False, sym_type = None \<rparr>"

definition ex_root :: "ref \<Rightarrow> ref node" where
  "ex_root r =
     (ex_node ''app'' ''1.0.0'' r)\<lparr> path := ''/app'', location := [], resolved := None,
                                    isRoot := True, isProjectRoot := True \<rparr>"

definition ex_edge :: "ref \<Rightarrow> ref option \<Rightarrow> string \<Rightarrow> string \<Rightarrow> string \<Rightarrow> ref edge" where
  "ex_edge f t nm spec ty =
     \<lparr> edge_from = f, edge_to = t, edge_name = nm, edge_spec = spec, edge_type = ty,
       edge_invalid = False,
       edge_missing = (t = None \<and> ty \<noteq> ''optional'' \<and> ty \<noteq> ''peerOptional''),
       edge_optional = (ty = ''optional'' \<or> ty = ''peerOptional'') \<rparr>"

text \<open>
  The package metadata: the object at address 1 is that of \<open>left\<close>, the one at address 2
  that of \<open>right\<close>.
\<close>

definition ex_heap :: heap where
  "ex_heap =
     (\<lambda>a. \<lparr> description = None, homepage = None, license = Some ''MIT'' \<rparr>)
       (1 := \<lparr> description = Some ''left pad'', homepage = Some ''left.example.com'',
               license = Some ''ISC'' \<rparr>,
        2 := \<lparr> description = None, homepage = Some ''right.example.com'',
               license = Some ''MIT'' \<rparr>)"

text \<open>
  Externals that normalise nothing, compare \<open>pkgid\<close>s by their lengths, and put the
  letters \<open>a\<close> to \<open>z\<close> in upper case, which is what \<open>String.prototype.toUpperCase\<close> does
  with a string of ASCII characters.
\<close>

definition upper_char :: "char \<Rightarrow> char" where
  "upper_char c =
     (let k = (of_char c :: nat) in if 97 \<le> k \<and> k \<le> 122 then char_of (k - 32) else c)"

definition ex_X :: externals where
  "ex_X =
     \<lparr> localeCompare = (\<lambda>a b. int (length a) - int (length b)),
       EOL = [CHR 0x0A],
       toUpperCase = map upper_char,
       normalizeData = Inr,
       npa_escapedName = (\<lambda>s. Some (takeWhile (\<lambda>c. c \<noteq> CHR ''@'') s)),
       npa_type = (\<lambda>s. Some ''remote''),
       toPurl = (\<lambda>s. Some (''pkg:npm/'' @ s)),
       ssri_parse = (\<lambda>s. Some (''sha512'', ''00'')),
       uuid_v4 = ''u1'',
       toISOString_now = ''t1'',
       npm_version = ''10.0.0'' \<rparr>"

definition ex_cfg :: "ref config" where
  "ex_cfg =
     \<lparr> sbom_format = Some ''spdx'', omit = [], workspacesEnabled = True, wsNodes = None,
       package_type = Some ''application'' \<rparr>"

definition no_cyclonedx :: "(ref, unit) builder" where
  "no_cyclonedx st h items pt = Inl (LibraryError, st, h)"

text \<open>
  \<open>ex_tree\<close>: the root \<open>app@1.0.0\<close> depends on \<open>left@1.0.0\<close> (prod) and on \<open>right@1.0.0\<close>
  (dev), and \<open>left\<close> has \<open>right\<close> as a peer. \<open>R3\<close> is a link to \<open>right\<close> that no edge
  reaches; its \<open>package\<close> is the object of \<open>right\<close>.
\<close>

definition ex_tree :: "ref store" where
  "ex_tree =
     (\<lambda>r. (ex_node ''lib'' ''2.0.0'' R2)\<lparr> isLink := True, resolved := Some ''file:../right'' \<rparr>)
       (R0 := (ex_root R0)\<lparr> edgesOut := [ex_edge R0 (Some R1) ''left'' ''^1.0.0'' ''prod'',
                                            ex_edge R0 (Some R2) ''right'' ''^1.0.0'' ''dev''] \<rparr>,
        R1 := (ex_node ''left'' ''1.0.0'' R1)\<lparr>
                edgesOut := [ex_edge R1 (Some R2) ''right'' ''*'' ''peer''] \<rparr>,
        R2 := ex_node ''right'' ''1.0.0'' R2)"

text \<open>The root requires \<open>foo@^2.0.0\<close>, of kind \<open>ty\<close>, and nothing resolves it.\<close>

definition ex_missing :: "string \<Rightarrow> ref store" where
  "ex_missing ty =
     (\<lambda>r. ex_node ''unused'' ''0.0.0'' r)
       (R0 := (ex_root R0)\<lparr> edgesOut := [ex_edge R0 None ''foo'' ''^2.0.0'' ty] \<rparr>)"

text \<open>
  The root requires \<open>left@1.0.0\<close>, which is there, and \<open>left\<close> requires \<open>foo@^2.0.0\<close>, of
  kind \<open>ty\<close>, which nothing resolves.
\<close>

definition ex_deep :: "string \<Rightarrow> ref store" where
  "ex_deep ty =
     (\<lambda>r. ex_node ''unused'' ''0.0.0'' r)
       (R0 := (ex_root R0)\<lparr> edgesOut := [ex_edge R0 (Some R1) ''left'' ''^1.0.0'' ''prod''] \<rparr>,
        R1 := (ex_node ''left'' ''1.0.0'' R1)\<lparr>
                edgesOut := [ex_edge R1 None ''foo'' ''^2.0.0'' ty] \<rparr>)"

text \<open>
  The root requires \<open>foo@^2.0.0\<close> as a dev dependency, which nothing resolves, and
  \<open>left@1.0.0\<close> through an edge that the resolver has marked invalid.
\<close>

definition ex_missing_invalid :: "ref store" where
  "ex_missing_invalid =
     (\<lambda>r. ex_node ''unused'' ''0.0.0'' r)
       (R0 := (ex_root R0)\<lparr> edgesOut := [ex_edge R0 None ''foo'' ''^2.0.0'' ''dev'',
                                            (ex_edge R0 (Some R1) ''left'' ''^2.0.0'' ''prod'')
                                              \<lparr> edge_invalid := True \<rparr>] \<rparr>,
        R1 := ex_node ''left'' ''1.0.0'' R1)"

text \<open>
  Two links \<open>R1\<close> and \<open>R3\<close> to the same package \<open>R2\<close>, which requires \<open>foo@^2.0.0\<close>;
  nothing resolves it.
\<close>

definition ex_links :: "ref store" where
  "ex_links =
     (\<lambda>r. ex_node ''unused'' ''0.0.0'' r)
       (R0 := (ex_root R0)\<lparr> edgesOut := [ex_edge R0 (Some R1) ''lib'' ''*'' ''prod'',
                                            ex_edge R0 (Some R3) ''lib-alias'' ''*'' ''prod''] \<rparr>,
        R1 := (ex_node ''lib'' ''2.0.0'' R2)\<lparr> isLink := True, resolved := Some ''file:../lib'' \<rparr>,
        R3 := (ex_node ''lib-alias'' ''2.0.0'' R2)\<lparr> isLink := True,
                                                      resolved := Some ''file:../lib'' \<rparr>,
        R2 := (ex_node ''lib'' ''2.0.0'' R2)\<lparr>
                path := ''/lib'',
                edgesOut := [ex_edge R2 None ''foo'' ''^2.0.0'' ''prod''] \<rparr>)"

text \<open>
  A normaliser that puts \<open>http://\<close> before a homepage that does not start with it, as
  \<open>normalize-package-data\<close> does with a homepage that names no protocol; and one that
  does the same and then throws on the metadata of \<open>right\<close>.
\<close>

definition add_protocol :: "string \<Rightarrow> string" where
  "add_protocol u = (if take 7 u = ''http://'' then u else ''http://'' @ u)"

definition ex_normalize :: "package_json \<Rightarrow> package_json + package_json" where
  "ex_normalize pj = Inr (pj\<lparr> homepage := map_option add_protocol (homepage pj) \<rparr>)"

definition ex_normalize_throws :: "package_json \<Rightarrow> package_json + package_json" where
  "ex_normalize_throws pj =
     (if homepage pj = Some ''right.example.com''
      then Inl (pj\<lparr> homepage := map_option add_protocol (homepage pj) \<rparr>)
      else Inr (pj\<lparr> homepage := map_option add_protocol (homepage pj) \<rparr>))"

section \<open>Notions of the specification\<close>

text \<open>
  What a run may change on the nodes it is given: the traversal writes the properties
  keyed by \<open>_invalid\<close> and \<open>_type\<close> (the one keyed by \<open>_missing\<close> is only on the
  placeholders it creates). Two stores are the same but for these annotations when
  every node is the same once both are reset.
\<close>

definition unannotated :: "'r node \<Rightarrow> 'r node" where
  "unannotated n = n\<lparr> sym_invalid := False, sym_type := None \<rparr>"

definition same_but_annotations :: "'r store \<Rightarrow> 'r store \<Rightarrow> bool" where
  "same_but_annotations st st' = (\<forall>r. unannotated (st' r) = unannotated (st r))"

text \<open>
  What the document builder may change: it hands \<open>node.package\<close> to the normaliser.
  \<open>normalized X p q\<close>: one call of \<open>normalizeData\<close> on an object that holds \<open>p\<close> leaves it
  holding \<open>q\<close>, whether the call returns or throws.
\<close>

definition normalized :: "externals \<Rightarrow> package_json \<Rightarrow> package_json \<Rightarrow> bool" where
  "normalized X p q = (normalizeData X p = Inr q \<or> normalizeData X p = Inl q)"

text \<open>The identifiers of the package records of a document.\<close>

definition package_ids :: "bom \<Rightarrow> string set" where
  "package_ids b = p_SPDXID ` set (packages b)"

text \<open>
  The line of a missing dependency, and what makes an edge one that the traversal
  reports: nothing resolves it, and its kind is neither \<open>optional\<close> nor \<open>peerOptional\<close>.
\<close>

definition missing_line :: "'r store \<Rightarrow> 'r edge \<Rightarrow> string" where
  "missing_line st e =
     ''missing: '' @ edge_name e @ ''@'' @ edge_spec e @ '', required by ''
       @ pkgid (st (edge_from e))"

text \<open>The placeholder that \<open>mapEdgesToNodes\<close> makes for an edge.\<close>

definition placeholder_for :: "'r store \<Rightarrow> 'r edge \<Rightarrow> placeholder" where
  "placeholder_for st e =
     \<lparr> ph_name = edge_name e,
       ph_pkgid = edge_name e @ ''@'' @ edge_spec e,
       ph_missing = pkgid (st (edge_from e)),
       ph_invalid = edge_invalid e,
       ph_type = edge_type e \<rparr>"

definition unresolved :: "'r edge \<Rightarrow> bool" where
  "unresolved e = (edge_missing e \<or> (edge_optional e \<and> edge_to e = None))"

definition non_optional :: "'r edge \<Rightarrow> bool" where
  "non_optional e = (edge_type e \<noteq> ''optional'' \<and> edge_type e \<noteq> ''peerOptional'')"

text \<open>
  The dependency graph, as the tree gives it before the run. An edge is followed when
  the workspace filter and the omit filter let it through. The children of a node in
  the graph are the nodes that the followed and resolved edges of its target link to,
  and those of its own children in the tree that are extraneous and whose path is not
  the path of one of the former. A node is in the graph of \<open>tree\<close> when a chain of
  children leads from \<open>tree\<close> to it.
\<close>

definition followed :: "'r config \<Rightarrow> 'r store \<Rightarrow> 'r edge \<Rightarrow> bool" where
  "followed cfg st e =
     (filterBySelectedWorkspaces cfg st e = Inr True \<and> filterByEdgesTypes cfg e)"

definition edge_children :: "'r config \<Rightarrow> 'r store \<Rightarrow> 'r \<Rightarrow> 'r list" where
  "edge_children cfg st r =
     List.map_filter edge_to
       (filter (\<lambda>e. followed cfg st e \<and> \<not> unresolved e) (edgesOut (st (target (st r)))))"

definition extraneous_children :: "'r config \<Rightarrow> 'r store \<Rightarrow> 'r \<Rightarrow> 'r list" where
  "extraneous_children cfg st r =
     filter (\<lambda>c. extraneous (st c)
                 \<and> path (st c) \<notin> {p \<in> path ` st ` set (edge_children cfg st r). p \<noteq> []})
       (children (st r))"

definition child_of :: "'r config \<Rightarrow> 'r store \<Rightarrow> 'r \<Rightarrow> 'r \<Rightarrow> bool" where
  "child_of cfg st r c =
     (c \<in> set (edge_children cfg st r) \<or> c \<in> set (extraneous_children cfg st r))"

definition in_graph :: "'r config \<Rightarrow> 'r store \<Rightarrow> 'r \<Rightarrow> 'r \<Rightarrow> bool" where
  "in_graph cfg st tree r = rtranclp (child_of cfg st) tree r"

text \<open>What \<open>mapEdgesToNodes\<close> returns for an edge on which it does not throw.\<close>

definition edge_item :: "'r store \<Rightarrow> 'r edge \<Rightarrow> 'r item" where
  "edge_item st e =
     (if unresolved e then Placeholder (placeholder_for st e) else NodeRef (the (edge_to e)))"

section \<open>The document builder\<close>

subsection \<open>Identifiers\<close>

lemma separators_eq_iff:
  "(at_to_dash (slash_to_dot a) = at_to_dash (slash_to_dot b)) =
   (a = b \<or> (a \<in> {CHR ''/'', CHR ''.''} \<and> b \<in> {CHR ''/'', CHR ''.''})
          \<or> (a \<in> {CHR ''@'', CHR ''-''} \<and> b \<in> {CHR ''@'', CHR ''-''}))"
  by (auto simp: at_to_dash_def slash_to_dot_def)

lemma map_eq_list_all2: "(map f xs = map f ys) = list_all2 (\<lambda>a b. f a = f b) xs ys"
  by (induction xs arbitrary: ys) (auto simp: list_all2_Cons1 map_eq_Cons_conv)

lemma toSpdxID_eq_iff:
  "(toSpdxID i = toSpdxID j) =
   list_all2 (\<lambda>a b. a = b \<or> (a \<in> {CHR ''/'', CHR ''.''} \<and> b \<in> {CHR ''/'', CHR ''.''})
                          \<or> (a \<in> {CHR ''@'', CHR ''-''} \<and> b \<in> {CHR ''@'', CHR ''-''}))
     (strip_scope i) (strip_scope j)"
proof -
  have "(toSpdxID i = toSpdxID j) =
        (map (\<lambda>c. at_to_dash (slash_to_dot c)) (strip_scope i) =
         map (\<lambda>c. at_to_dash (slash_to_dot c)) (strip_scope j))"
    by (simp add: toSpdxID_def Let_def comp_def)
  then show ?thesis
    by (simp only: map_eq_list_all2 separators_eq_iff)
qed

lemma toSpdxID_safe: "CHR ''/'' \<notin> set (toSpdxID i) \<and> CHR ''@'' \<notin> set (toSpdxID i)"
  by (auto simp: toSpdxID_def Let_def at_to_dash_def slash_to_dot_def)

lemma toSpdxID_inj_on:
  "inj_on toSpdxID {s. CHR ''.'' \<notin> set s \<and> CHR ''-'' \<notin> set s \<and> \<not> prefix ''@'' s}"
proof (rule inj_onI)
  fix i j
  assume i: "i \<in> {s. CHR ''.'' \<notin> set s \<and> CHR ''-'' \<notin> set s \<and> \<not> prefix ''@'' s}"
    and j: "j \<in> {s. CHR ''.'' \<notin> set s \<and> CHR ''-'' \<notin> set s \<and> \<not> prefix ''@'' s}"
    and eq: "toSpdxID i = toSpdxID j"
  have si: "strip_scope i = i"
    using i by (cases i) (auto simp: strip_scope_def)
  have sj: "strip_scope j = j"
    using j by (cases j) (auto simp: strip_scope_def)
  from eq have m: "map (\<lambda>c. at_to_dash (slash_to_dot c)) i = map (\<lambda>c. at_to_dash (slash_to_dot c)) j"
    by (simp add: toSpdxID_def Let_def comp_def si sj)
  have "inj_on (\<lambda>c. at_to_dash (slash_to_dot c)) (set i \<union> set j)"
    using i j by (auto simp: inj_on_def at_to_dash_def slash_to_dot_def split: if_splits)
  with m show "i = j"
    by (rule map_inj_on)
qed

text \<open>
  C5. \<open>toSpdxID\<close> is a function of the package identifier alone, so the same identifier
  gives the same document-local identifier in every run. It is not injective:
  \<open>@foo/bar@1.0.0\<close> and \<open>foo.bar@1.0.0\<close> get the same identifier.
\<close>

theorem toSpdxID_collision:
  "toSpdxID ''@foo/bar@1.0.0'' = toSpdxID ''foo.bar@1.0.0'' \<and> ''@foo/bar@1.0.0'' \<noteq> ''foo.bar@1.0.0''"
  by (simp add: toSpdxID_def strip_scope_def slash_to_dot_def at_to_dash_def)

text \<open>
  C5, as amended. The identifier is the prefix \<open>SPDXRef-Package-\<close> followed by the package
  identifier without a leading at-sign, with dots for slashes and hyphens for at-signs:
  it holds no slash and no at-sign. Two package identifiers get the same identifier
  exactly when, after a leading at-sign is dropped, they have the same length and differ
  only where one has a slash and the other a dot, or one an at-sign and the other a
  hyphen. On identifiers without dot, hyphen and leading at-sign it is injective.
\<close>

theorem toSpdxID_characterised:
  "prefix ''SPDXRef-Package-'' (toSpdxID i) \<and>
   CHR ''/'' \<notin> set (toSpdxID i) \<and> CHR ''@'' \<notin> set (toSpdxID i) \<and>
   (toSpdxID i = toSpdxID j) =
     list_all2 (\<lambda>a b. a = b \<or> (a \<in> {CHR ''/'', CHR ''.''} \<and> b \<in> {CHR ''/'', CHR ''.''})
                            \<or> (a \<in> {CHR ''@'', CHR ''-''} \<and> b \<in> {CHR ''@'', CHR ''-''}))
       (strip_scope i) (strip_scope j) \<and>
   inj_on toSpdxID {s. CHR ''.'' \<notin> set s \<and> CHR ''-'' \<notin> set s \<and> \<not> prefix ''@'' s}"
proof -
  have "prefix ''SPDXRef-Package-'' (toSpdxID i)"
    by (simp add: toSpdxID_def Let_def)
  then show ?thesis
    using toSpdxID_safe [of i] toSpdxID_eq_iff [of i j] toSpdxID_inj_on by blast
qed

theorem toSpdxID_characterised_witness:
  "toSpdxID ''left@1'' = ''SPDXRef-Package-left-1'' \<and> toSpdxID ''@s/left@1'' = ''SPDXRef-Package-s.left-1''
   \<and> toSpdxID ''left@1'' \<noteq> toSpdxID ''right@1''"
proof -
  have a: "''left@1'' \<in> {s. CHR ''.'' \<notin> set s \<and> CHR ''-'' \<notin> set s \<and> \<not> prefix ''@'' s}"
    by simp
  have b: "''right@1'' \<in> {s. CHR ''.'' \<notin> set s \<and> CHR ''-'' \<notin> set s \<and> \<not> prefix ''@'' s}"
    by simp
  have "inj_on toSpdxID {s. CHR ''.'' \<notin> set s \<and> CHR ''-'' \<notin> set s \<and> \<not> prefix ''@'' s}"
    using toSpdxID_characterised [of "''left@1''" "''right@1''"] by blast
  from inj_onD [OF this _ a b] have "toSpdxID ''left@1'' \<noteq> toSpdxID ''right@1''"
    by auto
  then show ?thesis
    by (simp add: toSpdxID_def strip_scope_def slash_to_dot_def at_to_dash_def)
qed

subsection \<open>Relationship records\<close>

text \<open>
  C7. The relationship type of the record made from an edge depends on the edge's kind
  alone: \<open>peer\<close> gives \<open>HAS_PREREQUISITE\<close>, \<open>optional\<close> gives \<open>OPTIONAL_DEPENDENCY_OF\<close>,
  \<open>dev\<close> gives \<open>DEV_DEPENDENCY_OF\<close> and every other kind gives \<open>DEPENDS_ON\<close>.
\<close>

theorem toSpdxRelationship_type:
  assumes "toSpdxRelationship st n e = Some rel"
  shows "(edge_type e = ''peer'' \<longrightarrow> relationshipType rel = ''HAS_PREREQUISITE'') \<and>
         (edge_type e = ''optional'' \<longrightarrow> relationshipType rel = ''OPTIONAL_DEPENDENCY_OF'') \<and>
         (edge_type e = ''dev'' \<longrightarrow> relationshipType rel = ''DEV_DEPENDENCY_OF'') \<and>
         (edge_type e \<notin> {''peer'', ''optional'', ''dev''} \<longrightarrow> relationshipType rel = ''DEPENDS_ON'') \<and>
         (\<forall>st' n' e' rel'. toSpdxRelationship st' n' e' = Some rel' \<and> edge_type e' = edge_type e
            \<longrightarrow> relationshipType rel' = relationshipType rel)"
proof -
  have "relationshipType rel = relationship_type (edge_type e)"
    using assms by (auto simp: toSpdxRelationship_def split: option.splits)
  moreover have "\<forall>st' n' e' rel'. toSpdxRelationship (st' :: 'b store) n' e' = Some rel'
                   \<and> edge_type e' = edge_type e
                   \<longrightarrow> relationshipType rel' = relationship_type (edge_type e)"
    by (auto simp: toSpdxRelationship_def split: option.splits)
  ultimately show ?thesis
    by (simp add: relationship_type_def)
qed

theorem toSpdxRelationship_type_witness:
  "(\<exists>rel. toSpdxRelationship ex_tree R0 (ex_edge R0 (Some R2) ''right'' ''^1.0.0'' ''dev'') = Some rel
      \<and> relationshipType rel = ''DEV_DEPENDENCY_OF'') \<and>
   (\<exists>rel. toSpdxRelationship ex_tree R0 (ex_edge R0 (Some R2) ''right'' ''^1.0.0'' ''peerOptional'')
             = Some rel
      \<and> relationshipType rel = ''DEPENDS_ON'')"
proof -
  obtain rel where
    dev: "toSpdxRelationship ex_tree R0 (ex_edge R0 (Some R2) ''right'' ''^1.0.0'' ''dev'') = Some rel"
    by (simp add: toSpdxRelationship_def ex_edge_def)
  have "edge_type (ex_edge R0 (Some R2) ''right'' ''^1.0.0'' ''dev'') = ''dev''"
    by (simp add: ex_edge_def)
  with toSpdxRelationship_type [OF dev] have a: "relationshipType rel = ''DEV_DEPENDENCY_OF''"
    by blast
  obtain rel' where
    po: "toSpdxRelationship ex_tree R0 (ex_edge R0 (Some R2) ''right'' ''^1.0.0'' ''peerOptional'')
           = Some rel'"
    by (simp add: toSpdxRelationship_def ex_edge_def)
  have "edge_type (ex_edge R0 (Some R2) ''right'' ''^1.0.0'' ''peerOptional'')
          \<notin> {''peer'', ''optional'', ''dev''}"
    by (simp add: ex_edge_def)
  with toSpdxRelationship_type [OF po] have b: "relationshipType rel' = ''DEPENDS_ON''"
    by blast
  from dev a po b show ?thesis
    by blast
qed

subsection \<open>Package records\<close>

lemma toSpdxItem_Inr:
  assumes "toSpdxItem X st h r pt = Inr (p, h')"
  shows "\<exists>pj. normalizeData X (h (package (st r))) = Inr pj
            \<and> h' = h(package (st r) := pj)
            \<and> p_SPDXID p = toSpdxID (pkgid (st r))
            \<and> primaryPackagePurpose p = (if truthy pt then Some (toUpperCase X (the pt)) else None)
            \<and> downloadLocation p
                = or_else (if isLink (st r) then None else resolved (st r)) ''NOASSERTION''"
proof (cases "normalizeData X (h (package (st r)))")
  case (Inl pj)
  with assms show ?thesis
    by (simp add: toSpdxItem_def Let_def)
next
  case (Inr pj)
  note pj = this
  show ?thesis
  proof (cases "toPurl X (pkgid (st r))")
    case None
    with assms pj show ?thesis
      by (simp add: toSpdxItem_def Let_def)
  next
    case (Some purl)
    note purl = this
    show ?thesis
    proof (cases "truthy (integrity (st r))")
      case False
      with assms pj purl show ?thesis
        by (simp add: toSpdxItem_def Let_def) auto
    next
      case True
      note t = this
      show ?thesis
      proof (cases "ssri_parse X (the (integrity (st r)))")
        case None
        with assms pj purl t show ?thesis
          by (simp add: toSpdxItem_def Let_def)
      next
        case (Some ah)
        with assms pj purl t show ?thesis
          by (cases ah) (auto simp add: toSpdxItem_def Let_def)
      qed
    qed
  qed
qed

lemma toSpdxItem_heap:
  "\<exists>q. normalized X (h (package (st r))) q
       \<and> state_after (toSpdxItem X st h r pt) = h(package (st r) := q)"
proof (cases "normalizeData X (h (package (st r)))")
  case (Inl pj)
  then show ?thesis
    by (auto simp: toSpdxItem_def Let_def state_after_def normalized_def)
next
  case (Inr pj)
  note pj = this
  then have n: "normalized X (h (package (st r))) pj"
    by (simp add: normalized_def)
  have "state_after (toSpdxItem X st h r pt) = h(package (st r) := pj)"
  proof (cases "toPurl X (pkgid (st r))")
    case None
    with pj show ?thesis
      by (simp add: toSpdxItem_def Let_def state_after_def)
  next
    case (Some purl)
    note purl = this
    show ?thesis
    proof (cases "truthy (integrity (st r))")
      case False
      with pj purl show ?thesis
        by (simp add: toSpdxItem_def Let_def state_after_def)
    next
      case True
      note t = this
      show ?thesis
      proof (cases "ssri_parse X (the (integrity (st r)))")
        case None
        with pj purl t show ?thesis
          by (simp add: toSpdxItem_def Let_def state_after_def)
      next
        case (Some ah)
        with pj purl t show ?thesis
          by (cases ah) (simp add: toSpdxItem_def Let_def state_after_def)
      qed
    qed
  qed
  with n show ?thesis
    by blast
qed

lemma toSpdxItem_heap_frame:
  assumes "state_after (toSpdxItem X st h r pt) = h'"
  shows "rtranclp (normalized X) (h a) (h' a)" and "a \<noteq> package (st r) \<Longrightarrow> h' a = h a"
proof -
  from toSpdxItem_heap [of X h st r pt] assms obtain q where
    q: "normalized X (h (package (st r))) q" and h': "h' = h(package (st r) := q)"
    by auto
  from q h' show "rtranclp (normalized X) (h a) (h' a)"
    by (cases "a = package (st r)") auto
  assume "a \<noteq> package (st r)"
  with h' show "h' a = h a"
    by simp
qed

lemma state_after_Inr: "state_after (Inr (x, s)) = s"
  by (simp add: state_after_def)

lemma state_after_Inl: "state_after (Inl (e, s)) = s"
  by (simp add: state_after_def)

lemma child_items_Inr:
  "child_items X st h ns = Inr (ps, h') \<Longrightarrow>
     map p_SPDXID ps = map (\<lambda>i. toSpdxID (item_pkgid st i)) ns
     \<and> (\<forall>p\<in>set ps. primaryPackagePurpose p = None)"
proof (induction ns arbitrary: h ps)
  case Nil
  then show ?case
    by simp
next
  case (Cons i ns)
  show ?case
  proof (cases i)
    case (Placeholder ph)
    with Cons.prems show ?thesis
      by simp
  next
    case (NodeRef r)
    with Cons.prems obtain p h1 ps' where
      item: "toSpdxItem X st h r None = Inr (p, h1)" and
      rest: "child_items X st h1 ns = Inr (ps', h')" and
      ps: "ps = p # ps'"
      by (auto split: sum.splits prod.splits)
    from toSpdxItem_Inr [OF item] have
      id: "p_SPDXID p = toSpdxID (pkgid (st r))" and
      purpose: "primaryPackagePurpose p = None"
      by (auto simp: truthy_def)
    from Cons.IH [OF rest] id purpose ps NodeRef show ?thesis
      by (simp add: item_pkgid_def)
  qed
qed

lemma child_items_heap_frame:
  "state_after (child_items X st h ns) = h' \<Longrightarrow>
     rtranclp (normalized X) (h a) (h' a)
     \<and> (a \<notin> package ` st ` {r. NodeRef r \<in> set ns} \<longrightarrow> h' a = h a)"
proof (induction ns arbitrary: h)
  case Nil
  then show ?case
    by (simp add: state_after_def)
next
  case (Cons i ns)
  show ?case
  proof (cases i)
    case (Placeholder ph)
    with Cons.prems show ?thesis
      by (simp add: state_after_def)
  next
    case (NodeRef r)
    define h1 where "h1 = state_after (toSpdxItem X st h r None)"
    from toSpdxItem_heap_frame [OF h1_def [symmetric]] have
      n1: "rtranclp (normalized X) (h a) (h1 a)" and
      f1: "a \<noteq> package (st r) \<longrightarrow> h1 a = h a"
      by simp_all
    show ?thesis
    proof (cases "toSpdxItem X st h r None")
      case (Inl err)
      with Cons.prems NodeRef have "h' = h1"
        by (cases err) (simp add: h1_def state_after_def)
      with n1 f1 NodeRef show ?thesis
        by auto
    next
      case (Inr res)
      obtain p hh where res: "res = (p, hh)"
        by (cases res)
      with Inr have hh: "hh = h1"
        by (simp add: h1_def state_after_def)
      have "state_after (child_items X st h1 ns) = h'"
        using Cons.prems NodeRef Inr res hh
        by (cases "child_items X st h1 ns") (auto simp: state_after_def)
      from Cons.IH [OF this] have
        n2: "rtranclp (normalized X) (h1 a) (h' a)" and
        f2: "a \<notin> package ` st ` {r. NodeRef r \<in> set ns} \<longrightarrow> h' a = h1 a"
        by simp_all
      from n1 n2 have "rtranclp (normalized X) (h a) (h' a)"
        by (rule rtranclp_trans)
      moreover have "a \<notin> package ` st ` {r. NodeRef r \<in> set (i # ns)} \<longrightarrow> h' a = h a"
        using f1 f2 NodeRef by auto
      ultimately show ?thesis
        by simp
    qed
  qed
qed

text \<open>
  C9. The package record of a node that is a link has the download location
  \<open>NOASSERTION\<close>, whatever the node's \<open>resolved\<close> is.
\<close>

theorem toSpdxItem_link_downloadLocation:
  "toSpdxItem X st h r pt = Inr (p, h') \<Longrightarrow> isLink (st r) \<Longrightarrow> downloadLocation p = ''NOASSERTION''"
  by (auto dest!: toSpdxItem_Inr simp: or_else_def)

theorem toSpdxItem_link_downloadLocation_witness:
  "isLink (ex_tree R3) \<and> resolved (ex_tree R3) = Some ''file:../right'' \<and>
   (\<exists>p h'. toSpdxItem ex_X ex_tree ex_heap R3 None = Inr (p, h')
      \<and> downloadLocation p = ''NOASSERTION'')"
proof -
  have l: "isLink (ex_tree R3)" and r: "resolved (ex_tree R3) = Some ''file:../right''"
    by (simp_all add: ex_tree_def ex_node_def)
  obtain p h' where run: "toSpdxItem ex_X ex_tree ex_heap R3 None = Inr (p, h')"
    by (simp add: toSpdxItem_def ex_X_def ex_tree_def ex_node_def Let_def truthy_def)
  from toSpdxItem_link_downloadLocation [OF run l] run l r show ?thesis
    by blast
qed

subsection \<open>The document\<close>

lemma spdxOutput_Inr:
  assumes "spdxOutput X st h nodes pt = Inr (b, h')"
  shows "\<exists>root rootItem h1 items rels escapedName.
           find_root st nodes = Some root
           \<and> npa_escapedName X (pkgid (st root)) = Some escapedName
           \<and> all_relationships st nodes nodes = Inr rels
           \<and> toSpdxItem X st h root pt = Inr (rootItem, h1)
           \<and> child_items X st h1 (filter (\<lambda>n. \<not> item_isRoot st n) nodes) = Inr (items, h')
           \<and> packages b = rootItem # items
           \<and> relationships b =
               \<lparr> spdxElementId = SPDX_IDENTIFER,
                 relatedSpdxElement = toSpdxID (pkgid (st root)),
                 relationshipType = ''DESCRIBES'' \<rparr> # rels
           \<and> b = \<lparr> spdxVersion = SPDX_SCHEMA_VERSION,
                   dataLicense = SPDX_DATA_LICENSE,
                   SPDXID = SPDX_IDENTIFER,
                   bom_name = pkgid (st root),
                   documentNamespace =
                     ''http://spdx.org/spdxdocs/'' @ escapedName @ ''-''
                       @ version (st root) @ ''-'' @ uuid_v4 X,
                   creationInfo =
                     \<lparr> created = toISOString_now X,
                       creators = [''Tool: npm/cli-'' @ npm_version X] \<rparr>,
                   documentDescribes = [toSpdxID (pkgid (st root))],
                   packages = rootItem # items,
                   relationships =
                     \<lparr> spdxElementId = SPDX_IDENTIFER,
                       relatedSpdxElement = toSpdxID (pkgid (st root)),
                       relationshipType = ''DESCRIBES'' \<rparr> # rels \<rparr>"
  using assms
  by (simp add: spdxOutput_def Let_def split: option.splits sum.splits prod.splits) auto

lemma find_root_Some:
  "find_root st nodes = Some root \<Longrightarrow> NodeRef root \<in> set nodes \<and> isRoot (st root)"
  by (induction st nodes rule: find_root.induct) (auto split: if_splits)

lemma unique_root:
  assumes one: "length (filter (item_isRoot st) nodes) = 1"
    and root: "find_root st nodes = Some root"
    and i: "i \<in> set nodes"
  shows "i = NodeRef root \<or> \<not> item_isRoot st i"
proof (rule disjCI)
  assume "\<not> \<not> item_isRoot st i"
  with i have a: "i \<in> set (filter (item_isRoot st) nodes)"
    by simp
  from find_root_Some [OF root] have b: "NodeRef root \<in> set (filter (item_isRoot st) nodes)"
    by (simp add: item_isRoot_def)
  from one obtain z where "filter (item_isRoot st) nodes = [z]"
    by (auto simp: length_Suc_conv)
  with a b show "i = NodeRef root"
    by simp
qed

lemma relationship_type_not_DESCRIBES: "relationship_type t \<noteq> ''DESCRIBES''"
  by (simp add: relationship_type_def)

lemma edge_in_list_iff:
  "edge_in_list st nodes e =
     (\<exists>t. edge_to e = Some t \<and> pkgid (st t) \<in> item_pkgid st ` set nodes)"
  by (cases "edge_to e") (force simp: edge_in_list_def find_None_iff)+

lemma node_relationships_elem:
  assumes "rel \<in> set (node_relationships st nodes r)"
  shows "spdxElementId rel = toSpdxID (pkgid (st r))
         \<and> relatedSpdxElement rel \<in> toSpdxID ` item_pkgid st ` set nodes
         \<and> relationshipType rel \<noteq> ''DESCRIBES''"
proof -
  from assms obtain e where e: "e \<in> set (edgesOut (st r))" "edge_in_list st nodes e"
    and rel: "toSpdxRelationship st r e = Some rel"
    by (auto simp: node_relationships_def List.map_filter_def)
  from e(2) obtain t where t: "edge_to e = Some t" "pkgid (st t) \<in> item_pkgid st ` set nodes"
    by (auto simp: edge_in_list_iff)
  from rel t show ?thesis
    by (auto simp: toSpdxRelationship_def relationship_type_not_DESCRIBES)
qed

lemma all_relationships_elem:
  "all_relationships st nodes ns = Inr rels \<Longrightarrow> rel \<in> set rels \<Longrightarrow>
     spdxElementId rel \<in> toSpdxID ` item_pkgid st ` set ns
     \<and> relatedSpdxElement rel \<in> toSpdxID ` item_pkgid st ` set nodes
     \<and> relationshipType rel \<noteq> ''DESCRIBES''"
proof (induction st nodes ns arbitrary: rels rule: all_relationships.induct)
  case (1 st nodes)
  then show ?case
    by simp
next
  case (2 st nodes p ns)
  then show ?case
    by simp
next
  case (3 st nodes r ns)
  from "3.prems"(1) obtain rs where rs: "all_relationships st nodes ns = Inr rs"
    and rels: "rels = node_relationships st nodes r @ rs"
    by (auto split: sum.splits)
  from "3.prems"(2) rels consider "rel \<in> set (node_relationships st nodes r)" | "rel \<in> set rs"
    by auto
  then show ?case
  proof cases
    case 1
    from node_relationships_elem [OF this] show ?thesis
      by (simp add: item_pkgid_def)
  next
    case 2
    from "3.IH" [OF rs this] show ?thesis
      by auto
  qed
qed

lemma spdxOutput_package_ids:
  assumes out: "spdxOutput X st h nodes pt = Inr (b, h')"
  shows "\<exists>root. find_root st nodes = Some root
           \<and> package_ids b
               = toSpdxID ` item_pkgid st ` (insert (NodeRef root) {n \<in> set nodes. \<not> item_isRoot st n})"
proof -
  from spdxOutput_Inr [OF out] obtain root rootItem h1 items where
    root: "find_root st nodes = Some root" and
    item: "toSpdxItem X st h root pt = Inr (rootItem, h1)" and
    items: "child_items X st h1 (filter (\<lambda>n. \<not> item_isRoot st n) nodes) = Inr (items, h')" and
    pk: "packages b = rootItem # items"
    by blast
  from toSpdxItem_Inr [OF item] have id: "p_SPDXID rootItem = toSpdxID (pkgid (st root))"
    by blast
  from child_items_Inr [OF items] have
    "map p_SPDXID items = map (\<lambda>i. toSpdxID (item_pkgid st i)) (filter (\<lambda>n. \<not> item_isRoot st n) nodes)"
    by simp
  then have "set (map p_SPDXID items)
               = set (map (\<lambda>i. toSpdxID (item_pkgid st i)) (filter (\<lambda>n. \<not> item_isRoot st n) nodes))"
    by (rule arg_cong)
  then have "p_SPDXID ` set items = toSpdxID ` item_pkgid st ` {n \<in> set nodes. \<not> item_isRoot st n}"
    by (simp only: set_map set_filter image_image)
  with id pk root show ?thesis
    by (simp add: package_ids_def item_pkgid_def)
qed

text \<open>
  C3. A node list that the builder accepts is the list of the nodes of a tree, of which
  exactly one is flagged as root, and the builder returns a document for it. In this
  document the first relationship is the one of type \<open>DESCRIBES\<close>, from the document
  element to the identifier of the root, and no other relationship has this type; the
  target of every relationship, and the source of every relationship after the first,
  is the identifier of a package record of the document; and the first package record
  is the root's.
\<close>

theorem spdxOutput_referential_integrity:
  assumes out: "spdxOutput X st h nodes pt = Inr (b, h')"
    and one: "length (filter (item_isRoot st) nodes) = 1"
  shows "\<exists>root. find_root st nodes = Some root
           \<and> relationships b \<noteq> []
           \<and> hd (relationships b)
               = \<lparr> spdxElementId = SPDX_IDENTIFER,
                   relatedSpdxElement = toSpdxID (pkgid (st root)),
                   relationshipType = ''DESCRIBES'' \<rparr>
           \<and> (\<forall>rel\<in>set (relationships b). relatedSpdxElement rel \<in> package_ids b)
           \<and> (\<forall>rel\<in>set (tl (relationships b)).
                  spdxElementId rel \<in> package_ids b \<and> relationshipType rel \<noteq> ''DESCRIBES'')
           \<and> filter (\<lambda>rel. relationshipType rel = ''DESCRIBES'') (relationships b)
               = [hd (relationships b)]
           \<and> packages b \<noteq> [] \<and> p_SPDXID (hd (packages b)) = toSpdxID (pkgid (st root))
           \<and> toSpdxID (pkgid (st root)) \<in> package_ids b"
proof -
  from spdxOutput_Inr [OF out] obtain root rootItem h1 items rels where
    root: "find_root st nodes = Some root" and
    rels: "all_relationships st nodes nodes = Inr rels" and
    item: "toSpdxItem X st h root pt = Inr (rootItem, h1)" and
    pk: "packages b = rootItem # items" and
    rs: "relationships b =
           \<lparr> spdxElementId = SPDX_IDENTIFER, relatedSpdxElement = toSpdxID (pkgid (st root)),
             relationshipType = ''DESCRIBES'' \<rparr> # rels"
    by blast
  from spdxOutput_package_ids [OF out] root have
    ids: "package_ids b
            = toSpdxID ` item_pkgid st ` (insert (NodeRef root) {n \<in> set nodes. \<not> item_isRoot st n})"
    by simp
  have "insert (NodeRef root) {n \<in> set nodes. \<not> item_isRoot st n} = set nodes"
    using unique_root [OF one root] find_root_Some [OF root] by auto
  with ids have all: "package_ids b = toSpdxID ` item_pkgid st ` set nodes"
    by simp
  have dep: "\<forall>rel\<in>set rels. spdxElementId rel \<in> package_ids b
               \<and> relatedSpdxElement rel \<in> package_ids b \<and> relationshipType rel \<noteq> ''DESCRIBES''"
    using all_relationships_elem [OF rels] all by blast
  then have none: "filter (\<lambda>rel. relationshipType rel = ''DESCRIBES'') rels = []"
    by (simp add: filter_empty_conv)
  from toSpdxItem_Inr [OF item] have first: "p_SPDXID rootItem = toSpdxID (pkgid (st root))"
    by blast
  have here: "toSpdxID (pkgid (st root)) \<in> package_ids b"
    using ids by (simp add: item_pkgid_def)
  from dep here rs have "\<forall>rel\<in>set (relationships b). relatedSpdxElement rel \<in> package_ids b"
    by simp
  moreover from dep rs have
    "\<forall>rel\<in>set (tl (relationships b)).
        spdxElementId rel \<in> package_ids b \<and> relationshipType rel \<noteq> ''DESCRIBES''"
    by simp
  ultimately show ?thesis
    using root pk rs none first here by simp
qed

theorem spdxOutput_referential_integrity_witness:
  "length (filter (item_isRoot ex_tree) [NodeRef R0, NodeRef R1, NodeRef R2]) = 1 \<and>
   (\<exists>b h'. spdxOutput ex_X ex_tree ex_heap [NodeRef R0, NodeRef R1, NodeRef R2] None = Inr (b, h')
      \<and> map p_SPDXID (packages b)
          = [''SPDXRef-Package-app-1.0.0'', ''SPDXRef-Package-left-1.0.0'', ''SPDXRef-Package-right-1.0.0'']
      \<and> map relationshipType (relationships b)
          = [''DESCRIBES'', ''DEPENDS_ON'', ''DEV_DEPENDENCY_OF'', ''HAS_PREREQUISITE'']
      \<and> list_all (\<lambda>rel. relatedSpdxElement rel \<in> package_ids b) (relationships b)
      \<and> list_all (\<lambda>rel. spdxElementId rel \<in> package_ids b) (tl (relationships b)))"
proof -
  have one: "length (filter (item_isRoot ex_tree) [NodeRef R0, NodeRef R1, NodeRef R2]) = 1"
    by (simp add: item_isRoot_def ex_tree_def ex_root_def ex_node_def)
  obtain b h' where
    out: "spdxOutput ex_X ex_tree ex_heap [NodeRef R0, NodeRef R1, NodeRef R2] None = Inr (b, h')" and
    pk: "map p_SPDXID (packages b)
          = [''SPDXRef-Package-app-1.0.0'', ''SPDXRef-Package-left-1.0.0'', ''SPDXRef-Package-right-1.0.0'']" and
    ty: "map relationshipType (relationships b)
          = [''DESCRIBES'', ''DEPENDS_ON'', ''DEV_DEPENDENCY_OF'', ''HAS_PREREQUISITE'']"
    by (simp add: spdxOutput_def ex_tree_def ex_X_def ex_root_def ex_node_def
      ex_edge_def toSpdxItem_def Let_def truthy_def or_else_def isGitNode_def item_isRoot_def
      node_relationships_def edge_in_list_def item_pkgid_def List.map_filter_def
      toSpdxRelationship_def relationship_type_def toSpdxID_def strip_scope_def
      slash_to_dot_def at_to_dash_def SPDX_IDENTIFER_def)
  from spdxOutput_referential_integrity [OF out one] have
    "\<forall>rel\<in>set (relationships b). relatedSpdxElement rel \<in> package_ids b" and
    "\<forall>rel\<in>set (tl (relationships b)). spdxElementId rel \<in> package_ids b"
    by blast+
  then have
    t: "list_all (\<lambda>rel. relatedSpdxElement rel \<in> package_ids b) (relationships b)" and
    s: "list_all (\<lambda>rel. spdxElementId rel \<in> package_ids b) (tl (relationships b))"
    unfolding list_all_iff by blast+
  show ?thesis
    by (intro conjI exI [of _ b] exI [of _ h']) (rule one out pk ty t s)+
qed

lemma toSpdxItem_packageType:
  "toSpdxItem X st h r None =
     (case toSpdxItem X st h r pt of
        Inl err \<Rightarrow> Inl err
      | Inr (p, h') \<Rightarrow> Inr (p\<lparr> primaryPackagePurpose := None \<rparr>, h'))"
proof (cases "normalizeData X (h (package (st r)))")
  case (Inl pj)
  then show ?thesis
    by (simp add: toSpdxItem_def Let_def)
next
  case (Inr pj)
  note pj = this
  show ?thesis
  proof (cases "toPurl X (pkgid (st r))")
    case None
    with pj show ?thesis
      by (simp add: toSpdxItem_def Let_def)
  next
    case (Some purl)
    note purl = this
    show ?thesis
    proof (cases "truthy (integrity (st r))")
      case False
      with pj purl show ?thesis
        by (simp add: toSpdxItem_def Let_def truthy_def)
    next
      case True
      note t = this
      show ?thesis
      proof (cases "ssri_parse X (the (integrity (st r)))")
        case None
        with pj purl t show ?thesis
          by (simp add: toSpdxItem_def Let_def)
      next
        case (Some ah)
        with pj purl t show ?thesis
          by (cases ah) (simp add: toSpdxItem_def Let_def truthy_def)
      qed
    qed
  qed
qed

text \<open>
  C10. The configured package type reaches the root's package record only: when it is set,
  the first package record, the root's, has as its primary package purpose what
  \<open>toUpperCase\<close> makes of it; every other package record has none. Without a package
  type the builder returns the same document but for that one field.
\<close>

theorem spdxOutput_primaryPackagePurpose:
  assumes out: "spdxOutput X st h nodes pt = Inr (b, h')"
  shows "packages b \<noteq> []
         \<and> (truthy pt \<longrightarrow> primaryPackagePurpose (hd (packages b)) = Some (toUpperCase X (the pt)))
         \<and> (\<forall>p\<in>set (tl (packages b)). primaryPackagePurpose p = None)
         \<and> (\<exists>b0. spdxOutput X st h nodes None = Inr (b0, h')
                \<and> tl (packages b0) = tl (packages b)
                \<and> b0 = b\<lparr> packages := (hd (packages b))\<lparr> primaryPackagePurpose := None \<rparr>
                                         # tl (packages b) \<rparr>)"
proof -
  from spdxOutput_Inr [OF out] obtain root rootItem h1 items rels escapedName where
    root: "find_root st nodes = Some root" and
    esc: "npa_escapedName X (pkgid (st root)) = Some escapedName" and
    rels: "all_relationships st nodes nodes = Inr rels" and
    item: "toSpdxItem X st h root pt = Inr (rootItem, h1)" and
    items: "child_items X st h1 (filter (\<lambda>n. \<not> item_isRoot st n) nodes) = Inr (items, h')" and
    pk: "packages b = rootItem # items" and
    b: "b = \<lparr> spdxVersion = SPDX_SCHEMA_VERSION,
                   dataLicense = SPDX_DATA_LICENSE,
                   SPDXID = SPDX_IDENTIFER,
                   bom_name = pkgid (st root),
                   documentNamespace =
                     ''http://spdx.org/spdxdocs/'' @ escapedName @ ''-''
                       @ version (st root) @ ''-'' @ uuid_v4 X,
                   creationInfo =
                     \<lparr> created = toISOString_now X,
                       creators = [''Tool: npm/cli-'' @ npm_version X] \<rparr>,
                   documentDescribes = [toSpdxID (pkgid (st root))],
                   packages = rootItem # items,
                   relationships =
                     \<lparr> spdxElementId = SPDX_IDENTIFER,
                       relatedSpdxElement = toSpdxID (pkgid (st root)),
                       relationshipType = ''DESCRIBES'' \<rparr> # rels \<rparr>"
    by blast
  from toSpdxItem_Inr [OF item] have
    purpose: "primaryPackagePurpose rootItem = (if truthy pt then Some (toUpperCase X (the pt)) else None)"
    by blast
  from child_items_Inr [OF items] have none: "\<forall>p\<in>set items. primaryPackagePurpose p = None"
    by blast
  have item0: "toSpdxItem X st h root None = Inr (rootItem\<lparr> primaryPackagePurpose := None \<rparr>, h1)"
    using item by (simp add: toSpdxItem_packageType [of X st h root pt] split: sum.splits)
  have "spdxOutput X st h nodes None
          = Inr (b\<lparr> packages := rootItem\<lparr> primaryPackagePurpose := None \<rparr> # items \<rparr>, h')"
    using root esc rels item0 items
    by (simp add: spdxOutput_def Let_def b)
  with pk purpose none show ?thesis
    by simp
qed

theorem spdxOutput_primaryPackagePurpose_witness:
  "truthy (Some ''application'') \<and>
   (\<exists>b h'. spdxOutput ex_X ex_tree ex_heap [NodeRef R0, NodeRef R1, NodeRef R2] (Some ''application'')
               = Inr (b, h')
      \<and> map primaryPackagePurpose (packages b) = [Some ''APPLICATION'', None, None])"
proof -
  have t: "truthy (Some ''application'')"
    by (simp add: truthy_def)
  obtain b h' where
    out: "spdxOutput ex_X ex_tree ex_heap [NodeRef R0, NodeRef R1, NodeRef R2] (Some ''application'')
            = Inr (b, h')" and
    n: "length (packages b) = 3"
    by (simp add: spdxOutput_def ex_tree_def ex_X_def ex_root_def ex_node_def
      ex_edge_def toSpdxItem_def Let_def truthy_def or_else_def isGitNode_def item_isRoot_def
      node_relationships_def edge_in_list_def item_pkgid_def List.map_filter_def
      toSpdxRelationship_def)
  from n obtain p0 p1 p2 where pk: "packages b = [p0, p1, p2]"
    by (auto simp: length_Suc_conv numeral_3_eq_3)
  from spdxOutput_primaryPackagePurpose [OF out] t have
    "primaryPackagePurpose (hd (packages b)) = Some (toUpperCase ex_X ''application'')" and
    "\<forall>p\<in>set (tl (packages b)). primaryPackagePurpose p = None"
    by simp_all
  moreover have "map upper_char ''application'' = ''APPLICATION''"
    by code_simp
  then have "toUpperCase ex_X ''application'' = ''APPLICATION''"
    by (simp add: ex_X_def)
  ultimately have "map primaryPackagePurpose (packages b) = [Some ''APPLICATION'', None, None]"
    using pk by simp
  with t out show ?thesis
    by (intro conjI exI [of _ b] exI [of _ h']) (simp_all only:)
qed

section \<open>The traversal\<close>

subsection \<open>What the traversal writes\<close>

lemma same_but_annotations_refl: "same_but_annotations st st"
  by (simp add: same_but_annotations_def)

lemma same_but_annotations_trans:
  "same_but_annotations st st' \<Longrightarrow> same_but_annotations st' st'' \<Longrightarrow> same_but_annotations st st''"
  by (simp add: same_but_annotations_def)

lemma same_but_annotations_sym:
  "same_but_annotations st st' \<Longrightarrow> same_but_annotations st' st"
  by (simp add: same_but_annotations_def)

lemma same_but_annotations_field:
  assumes "same_but_annotations st st'" and "\<And>n. f (unannotated n) = f n"
  shows "f (st' r) = f (st r)"
proof -
  have "unannotated (st' r) = unannotated (st r)"
    using assms(1) by (simp add: same_but_annotations_def)
  then have "f (unannotated (st' r)) = f (unannotated (st r))"
    by (rule arg_cong)
  then show ?thesis
    by (simp only: assms(2))
qed

lemma same_but_annotations_fields:
  assumes "same_but_annotations st st'"
  shows "pkgid (st' r) = pkgid (st r)"
    and "target (st' r) = target (st r)"
    and "edgesOut (st' r) = edgesOut (st r)"
    and "isProjectRoot (st' r) = isProjectRoot (st r)"
    and "isWorkspace (st' r) = isWorkspace (st r)"
    and "package (st' r) = package (st r)"
    and "sym_missing (st' r) = sym_missing (st r)"
    and "path (st' r) = path (st r)"
    and "extraneous (st' r) = extraneous (st r)"
    and "children (st' r) = children (st r)"
  by (rule same_but_annotations_field [OF assms], simp add: unannotated_def)+

lemma filterBySelectedWorkspaces_frame:
  assumes "same_but_annotations st st'"
  shows "filterBySelectedWorkspaces cfg st' e = filterBySelectedWorkspaces cfg st e"
  by (simp add: filterBySelectedWorkspaces_def same_but_annotations_fields [OF assms]
      cong: option.case_cong sum.case_cong bool.case_cong if_cong)

lemma placeholder_for_frame:
  "same_but_annotations st st' \<Longrightarrow> placeholder_for st' e = placeholder_for st e"
  by (simp add: placeholder_for_def same_but_annotations_fields)

lemma edge_item_frame:
  "same_but_annotations st st' \<Longrightarrow> edge_item st' e = edge_item st e"
  by (simp add: edge_item_def placeholder_for_frame)

lemma followed_frame:
  "same_but_annotations st st' \<Longrightarrow> followed cfg st' e = followed cfg st e"
  by (simp add: followed_def filterBySelectedWorkspaces_frame)

lemma edge_children_frame:
  assumes "same_but_annotations st st'"
  shows "edge_children cfg st' r = edge_children cfg st r"
  by (simp add: edge_children_def followed_frame [OF assms] same_but_annotations_fields [OF assms])

lemma extraneous_children_frame:
  assumes "same_but_annotations st st'"
  shows "extraneous_children cfg st' r = extraneous_children cfg st r"
proof -
  have "path ` st' ` set (edge_children cfg st r) = path ` st ` set (edge_children cfg st r)"
    by (simp add: image_image same_but_annotations_fields [OF assms])
  then show ?thesis
    by (simp add: extraneous_children_def edge_children_frame [OF assms]
        same_but_annotations_fields [OF assms])
qed

lemma child_of_frame:
  "same_but_annotations st st' \<Longrightarrow> child_of cfg st' r c = child_of cfg st r c"
  by (simp add: child_of_def edge_children_frame extraneous_children_frame)

subsection \<open>The children of a node\<close>

lemma mapEdgesToNodes_unresolved:
  "unresolved e \<Longrightarrow>
     mapEdgesToNodes st sp e = Inr (Placeholder (placeholder_for st e), st, sp)"
  by (auto simp: mapEdgesToNodes_def unresolved_def placeholder_for_def)

lemma mapEdgesToNodes_null:
  "\<not> unresolved e \<Longrightarrow> edge_to e = None \<Longrightarrow> mapEdgesToNodes st sp e = Inl (TypeError, st, sp)"
  by (auto simp: mapEdgesToNodes_def unresolved_def)

lemma mapEdgesToNodes_resolved:
  assumes "\<not> unresolved e" and "edge_to e = Some t"
  shows "\<exists>st'. same_but_annotations st st'
           \<and> mapEdgesToNodes st sp e
               = Inr (NodeRef t, st', if path (st t) \<noteq> [] then insert (path (st t)) sp else sp)"
proof -
  define st' where
    "st' = st(t := (if edge_invalid e then (st t)\<lparr>sym_invalid := True\<rparr> else st t)
                     \<lparr>sym_type := Some (edge_type e)\<rparr>)"
  have "same_but_annotations st st'"
    by (simp add: st'_def same_but_annotations_def unannotated_def)
  moreover have "mapEdgesToNodes st sp e
     = Inr (NodeRef t, st', if path (st t) \<noteq> [] then insert (path (st t)) sp else sp)"
    using assms by (auto simp: mapEdgesToNodes_def unresolved_def Let_def st'_def)
  ultimately show ?thesis
    by blast
qed

lemma mapEdgesToNodes_frame:
  "same_but_annotations st (fst (state_after (mapEdgesToNodes st sp e)))"
proof (cases "unresolved e")
  case True
  then show ?thesis
    by (simp add: mapEdgesToNodes_unresolved state_after_def same_but_annotations_refl)
next
  case False
  show ?thesis
  proof (cases "edge_to e")
    case None
    with False show ?thesis
      by (simp add: mapEdgesToNodes_null state_after_def same_but_annotations_refl)
  next
    case (Some t)
    from mapEdgesToNodes_resolved [OF False Some, of st sp] show ?thesis
      by (auto simp: state_after_def)
  qed
qed

lemma map_edges_frame:
  "same_but_annotations st (fst (state_after (map_edges st sp es)))"
proof (induction es arbitrary: st sp)
  case Nil
  show ?case
    by (simp add: state_after_def same_but_annotations_refl)
next
  case (Cons e es)
  show ?case
  proof (cases "mapEdgesToNodes st sp e")
    case (Inl err)
    with mapEdgesToNodes_frame [of st sp e] show ?thesis
      by (simp add: state_after_def)
  next
    case (Inr res)
    obtain i st1 sp1 where res: "res = (i, st1, sp1)"
      by (cases res)
    with Inr mapEdgesToNodes_frame [of st sp e] have f1: "same_but_annotations st st1"
      by (simp add: state_after_def)
    have "state_after (map_edges st sp (e # es)) = state_after (map_edges st1 sp1 es)"
      using Inr res by (cases "map_edges st1 sp1 es") (auto simp: state_after_def)
    with Cons.IH [of st1 sp1] f1 show ?thesis
      by (auto intro: same_but_annotations_trans)
  qed
qed

lemma map_edges_Inr:
  "map_edges st sp es = Inr (is, st', sp') \<Longrightarrow>
     is = map (edge_item st) es
     \<and> sp' = sp \<union> {p \<in> path ` st ` set (List.map_filter edge_to (filter (\<lambda>e. \<not> unresolved e) es)).
                    p \<noteq> []}
     \<and> (\<forall>e\<in>set es. \<not> unresolved e \<longrightarrow> edge_to e \<noteq> None)"
proof (induction es arbitrary: st sp "is")
  case Nil
  then show ?case
    by (simp add: List.map_filter_def)
next
  case (Cons e es)
  from Cons.prems obtain i st1 sp1 is1 where
    first: "mapEdgesToNodes st sp e = Inr (i, st1, sp1)" and
    rest: "map_edges st1 sp1 es = Inr (is1, st', sp')" and
    "is": "is = i # is1"
    by (auto split: sum.splits prod.splits)
  from mapEdgesToNodes_frame [of st sp e] first have f1: "same_but_annotations st st1"
    by (simp add: state_after_def)
  from Cons.IH [OF rest] have
    is1: "is1 = map (edge_item st1) es" and
    sp': "sp' = sp1 \<union> {p \<in> path ` st1 ` set (List.map_filter edge_to (filter (\<lambda>e. \<not> unresolved e) es)).
                       p \<noteq> []}" and
    ok: "\<forall>e\<in>set es. \<not> unresolved e \<longrightarrow> edge_to e \<noteq> None"
    by simp_all
  have paths: "path ` st1 ` A = path ` st ` A" for A
    by (simp add: image_image same_but_annotations_fields [OF f1])
  from is1 have is1': "is1 = map (edge_item st) es"
    by (simp add: edge_item_frame [OF f1])
  show ?case
  proof (cases "unresolved e")
    case True
    with first have "i = edge_item st e" and "sp1 = sp"
      by (auto simp: mapEdgesToNodes_unresolved edge_item_def)
    with True "is" is1' sp' ok show ?thesis
      by (simp add: paths)
  next
    case False
    with first obtain t where t: "edge_to e = Some t"
      by (cases "edge_to e") (auto simp: mapEdgesToNodes_null)
    from mapEdgesToNodes_resolved [OF False t, of st sp] first have
      i: "i = NodeRef t" and
      sp1: "sp1 = (if path (st t) \<noteq> [] then insert (path (st t)) sp else sp)"
      by auto
    from i t False have "i = edge_item st e"
      by (simp add: edge_item_def)
    moreover have
      "sp' = sp \<union> {p \<in> path ` st ` set (List.map_filter edge_to (filter (\<lambda>e. \<not> unresolved e) (e # es))).
                     p \<noteq> []}"
      using sp' sp1 False t by (auto simp: paths List.map_filter_def)
    ultimately show ?thesis
      using "is" is1' ok False t by simp
  qed
qed

lemma filter_workspaces_Inr:
  "filter_workspaces cfg st es = Inr r \<Longrightarrow>
     r = filter (\<lambda>e. filterBySelectedWorkspaces cfg st e = Inr True) es"
  by (induction es arbitrary: r) (auto split: sum.splits if_splits)

lemma set_insert_sorted: "set (insert_sorted cmp st x xs) = insert x (set xs)"
  by (induction xs) auto

lemma set_sortAlphabetically: "set (sortAlphabetically cmp st xs) = set xs"
  by (induction xs) (auto simp: set_insert_sorted)

lemma getChildren_frame:
  "same_but_annotations st (state_after (getChildren cmp cfg st n))"
proof (cases "filter_workspaces cfg st (edgesOut (st (target (st n))))")
  case (Inl err)
  then show ?thesis
    by (simp add: getChildren_def state_after_def same_but_annotations_refl)
next
  case (Inr es)
  have "state_after (getChildren cmp cfg st n)
          = fst (state_after (map_edges st {} (filter (filterByEdgesTypes cfg) es)))"
    using Inr by (auto simp: getChildren_def state_after_def split: sum.splits prod.splits)
  then show ?thesis
    by (simp add: map_edges_frame)
qed

lemma getChildren_Inr:
  assumes "getChildren cmp cfg st n = Inr (kids, st')"
  shows "same_but_annotations st st'"
    and "set kids = edge_item st ` {e \<in> set (edgesOut (st (target (st n)))). followed cfg st e}
                    \<union> NodeRef ` set (extraneous_children cfg st n)"
    and "\<forall>e\<in>set (edgesOut (st (target (st n)))). followed cfg st e \<and> \<not> unresolved e
           \<longrightarrow> edge_to e \<noteq> None"
proof -
  from getChildren_frame [of st cmp cfg n] assms show f: "same_but_annotations st st'"
    by (simp add: state_after_def)
  from assms obtain es "is" sp where
    ws: "filter_workspaces cfg st (edgesOut (st (target (st n)))) = Inr es" and
    me: "map_edges st {} (filter (filterByEdgesTypes cfg) es) = Inr (is, st', sp)" and
    kids: "kids = sortAlphabetically cmp st' (is @ appendExtraneousChildren st' n sp)"
    by (auto simp: getChildren_def split: sum.splits prod.splits)
  have es: "filter (filterByEdgesTypes cfg) es
              = filter (followed cfg st) (edgesOut (st (target (st n))))"
    using filter_workspaces_Inr [OF ws] by (simp add: followed_def [abs_def])
  from map_edges_Inr [OF me] have
    "is": "is = map (edge_item st) (filter (followed cfg st) (edgesOut (st (target (st n)))))" and
    sp: "sp = {p \<in> path ` st ` set (List.map_filter edge_to
                 (filter (\<lambda>e. \<not> unresolved e)
                    (filter (followed cfg st) (edgesOut (st (target (st n))))))). p \<noteq> []}" and
    ok: "\<forall>e\<in>set (filter (followed cfg st) (edgesOut (st (target (st n))))).
            \<not> unresolved e \<longrightarrow> edge_to e \<noteq> None"
    by (simp_all add: es)
  from ok show "\<forall>e\<in>set (edgesOut (st (target (st n)))). followed cfg st e \<and> \<not> unresolved e
           \<longrightarrow> edge_to e \<noteq> None"
    by simp
  have "filter (\<lambda>e. \<not> unresolved e) (filter (followed cfg st) (edgesOut (st (target (st n)))))
          = filter (\<lambda>e. followed cfg st e \<and> \<not> unresolved e) (edgesOut (st (target (st n))))"
    by (simp add: conj_commute)
  with sp have sp': "sp = {p \<in> path ` st ` set (edge_children cfg st n). p \<noteq> []}"
    by (simp add: edge_children_def)
  have "appendExtraneousChildren st' n sp = map NodeRef (extraneous_children cfg st n)"
    unfolding appendExtraneousChildren_def extraneous_children_def sp'
    by (simp add: same_but_annotations_fields [OF f] conj_commute)
  with kids "is" show
    "set kids = edge_item st ` {e \<in> set (edgesOut (st (target (st n)))). followed cfg st e}
                \<union> NodeRef ` set (extraneous_children cfg st n)"
    by (simp add: set_sortAlphabetically)
qed

lemma getChildren_nodes:
  assumes "getChildren cmp cfg st n = Inr (kids, st')"
  shows "NodeRef c \<in> set kids \<longleftrightarrow> child_of cfg st n c"
proof -
  note k = getChildren_Inr(2) [OF assms] and ok = getChildren_Inr(3) [OF assms]
  have "(\<exists>e\<in>set (edgesOut (st (target (st n)))). followed cfg st e \<and> edge_item st e = NodeRef c)
        \<longleftrightarrow> c \<in> set (edge_children cfg st n)"
  proof
    assume "\<exists>e\<in>set (edgesOut (st (target (st n)))). followed cfg st e \<and> edge_item st e = NodeRef c"
    then obtain e where e: "e \<in> set (edgesOut (st (target (st n))))" "followed cfg st e"
      and i: "edge_item st e = NodeRef c"
      by blast
    from i have un: "\<not> unresolved e" and c: "the (edge_to e) = c"
      by (auto simp: edge_item_def split: if_splits)
    with ok e have "edge_to e = Some c"
      by auto
    with e un show "c \<in> set (edge_children cfg st n)"
      by (force simp: edge_children_def List.map_filter_def)
  next
    assume "c \<in> set (edge_children cfg st n)"
    then obtain e where "e \<in> set (edgesOut (st (target (st n))))" "followed cfg st e"
      "\<not> unresolved e" "edge_to e = Some c"
      by (auto simp: edge_children_def List.map_filter_def)
    then show "\<exists>e\<in>set (edgesOut (st (target (st n)))). followed cfg st e \<and> edge_item st e = NodeRef c"
      by (auto simp: edge_item_def)
  qed
  moreover have "NodeRef c \<in> set kids \<longleftrightarrow>
      (\<exists>e\<in>set (edgesOut (st (target (st n)))). followed cfg st e \<and> edge_item st e = NodeRef c)
      \<or> c \<in> set (extraneous_children cfg st n)"
    unfolding k by force
  ultimately show ?thesis
    by (simp add: child_of_def)
qed

lemma getChildren_placeholder:
  assumes "getChildren cmp cfg st n = Inr (kids, st')"
    and "e \<in> set (edgesOut (st (target (st n))))" and "followed cfg st e" and "unresolved e"
  shows "Placeholder (placeholder_for st e) \<in> set kids"
proof -
  from assms(4) have "edge_item st e = Placeholder (placeholder_for st e)"
    by (simp add: edge_item_def)
  with getChildren_Inr(2) [OF assms(1)] assms(2,3) show ?thesis
    by force
qed

subsection \<open>The accumulated errors\<close>

lemma set_Set_add: "set (Set_add x xs) = insert x (set xs)"
  by (auto simp: Set_add_def)

lemma distinct_Set_add: "distinct xs \<Longrightarrow> distinct (Set_add x xs)"
  by (simp add: Set_add_def)

lemma set_fold_Set_add: "set (fold Set_add ys xs) = set ys \<union> set xs"
  by (induction ys arbitrary: xs) (auto simp: set_Set_add)

lemma distinct_fold_Set_add: "distinct xs \<Longrightarrow> distinct (fold Set_add ys xs)"
  by (induction ys arbitrary: xs) (auto simp: distinct_Set_add)

lemma errors_visit: "set (errors (visit st i v)) = set (findErrors st i) \<union> set (errors v)"
  by (simp add: visit_def set_fold_Set_add)

lemma distinct_errors_visit: "distinct (errors v) \<Longrightarrow> distinct (errors (visit st i v))"
  by (simp add: visit_def distinct_fold_Set_add)

lemma findErrors_Placeholder:
  "findErrors st (Placeholder p) = findErrors st' (Placeholder p)"
  by (simp add: findErrors_def)

lemma values_Map_set: "snd ` set (Map_set k x m) \<subseteq> insert x (snd ` set m)"
proof (induction m)
  case Nil
  show ?case
    by simp
next
  case (Cons kv m)
  obtain k' y where kv: "kv = (k', y)"
    by (cases kv)
  show ?case
  proof (cases "k' = k")
    case True
    with kv show ?thesis
      by auto
  next
    case False
    with kv Cons.IH show ?thesis
      by auto
  qed
qed

lemma seenNodes_visit: "snd ` set (seenNodes (visit st i v)) \<subseteq> insert i (snd ` set (seenNodes v))"
  by (simp add: visit_def values_Map_set)

subsection \<open>The breadth-first walk\<close>

lemma breadth_frame:
  "same_but_annotations st (state_after (breadth cmp cfg st seen q v))"
proof (induction cmp cfg st seen q v rule: breadth.induct)
  case (1 cmp cfg st seen v)
  show ?case
    by (simp add: state_after_def same_but_annotations_refl)
next
  case (2 cmp cfg st seen p q v)
  then show ?case
    by simp
next
  case (3 cmp cfg st seen r q v)
  show ?case
  proof (cases "r \<in> seen")
    case True
    with "3.IH"(1) show ?thesis
      by simp
  next
    case False
    note new = this
    show ?thesis
    proof (cases "getChildren cmp cfg st r")
      case (Inl err)
      with getChildren_frame [of st cmp cfg r] new show ?thesis
        by (simp add: state_after_def)
    next
      case (Inr res)
      obtain kids st1 where res: "res = (kids, st1)"
        by (cases res)
      from getChildren_Inr(1) [of cmp cfg st r kids st1] Inr res have
        f1: "same_but_annotations st st1"
        by simp
      from "3.IH"(2) [OF new] Inr res have
        "same_but_annotations st1
           (state_after (breadth cmp cfg st1 (insert r seen) (q @ kids) (visit st (NodeRef r) v)))"
        by simp
      with f1 new Inr res show ?thesis
        by (auto intro: same_but_annotations_trans)
    qed
  qed
qed

lemma breadth_Inr:
  "breadth cmp cfg st seen q v = Inr ((seen', v'), st') \<Longrightarrow>
     same_but_annotations st st' \<and> seen \<subseteq> seen' \<and> set (errors v) \<subseteq> set (errors v')
     \<and> (distinct (errors v) \<longrightarrow> distinct (errors v'))"
proof (induction cmp cfg st seen q v rule: breadth.induct)
  case (1 cmp cfg st seen v)
  then show ?case
    by (simp add: same_but_annotations_refl)
next
  case (2 cmp cfg st seen p q v)
  from "2.prems" have
    "breadth cmp cfg st seen q (visit st (Placeholder p) v) = Inr ((seen', v'), st')"
    by simp
  from "2.IH" [OF this] show ?case
    by (auto simp: errors_visit distinct_errors_visit)
next
  case (3 cmp cfg st seen r q v)
  show ?case
  proof (cases "r \<in> seen")
    case True
    with "3.prems" have "breadth cmp cfg st seen q v = Inr ((seen', v'), st')"
      by simp
    from "3.IH"(1) [OF True this] show ?thesis .
  next
    case False
    with "3.prems" obtain kids st1 where
      gc: "getChildren cmp cfg st r = Inr (kids, st1)" and
      run: "breadth cmp cfg st1 (insert r seen) (q @ kids) (visit st (NodeRef r) v)
              = Inr ((seen', v'), st')"
      by (auto split: sum.splits prod.splits)
    from "3.IH"(2) [OF False gc refl run] getChildren_Inr(1) [OF gc] show ?thesis
      by (auto simp: errors_visit distinct_errors_visit intro: same_but_annotations_trans)
  qed
qed

lemma breadth_queued_placeholder:
  "breadth cmp cfg st seen q v = Inr ((seen', v'), st') \<Longrightarrow> Placeholder p \<in> set q \<Longrightarrow>
     set (findErrors st0 (Placeholder p)) \<subseteq> set (errors v')"
proof (induction cmp cfg st seen q v rule: breadth.induct)
  case (1 cmp cfg st seen v)
  then show ?case
    by simp
next
  case (2 cmp cfg st seen p' q v)
  from "2.prems"(1) have
    run: "breadth cmp cfg st seen q (visit st (Placeholder p') v) = Inr ((seen', v'), st')"
    by simp
  show ?case
  proof (cases "p = p'")
    case True
    from breadth_Inr [OF run] have "set (findErrors st (Placeholder p')) \<subseteq> set (errors v')"
      by (simp add: errors_visit)
    with True show ?thesis
      by (simp add: findErrors_Placeholder [of st0 p' st])
  next
    case False
    with "2.prems"(2) have "Placeholder p \<in> set q"
      by simp
    from "2.IH" [OF run this] show ?thesis .
  qed
next
  case (3 cmp cfg st seen r q v)
  from "3.prems"(2) have inq: "Placeholder p \<in> set q"
    by simp
  show ?case
  proof (cases "r \<in> seen")
    case True
    with "3.prems"(1) have "breadth cmp cfg st seen q v = Inr ((seen', v'), st')"
      by simp
    from "3.IH"(1) [OF True this inq] show ?thesis .
  next
    case False
    with "3.prems"(1) obtain kids st1 where
      gc: "getChildren cmp cfg st r = Inr (kids, st1)" and
      run: "breadth cmp cfg st1 (insert r seen) (q @ kids) (visit st (NodeRef r) v)
              = Inr ((seen', v'), st')"
      by (auto split: sum.splits prod.splits)
    from inq have "Placeholder p \<in> set (q @ kids)"
      by simp
    from "3.IH"(2) [OF False gc refl run this] show ?thesis .
  qed
qed

text \<open>
  Every node of the queue is met, and every node that the walk meets is expanded: its
  children in the graph are met as well, and the placeholders of its followed edges that
  nothing resolves are visited.
\<close>

lemma breadth_closed:
  "breadth cmp cfg st seen q v = Inr ((seen', v'), st') \<Longrightarrow> same_but_annotations st0 st \<Longrightarrow>
     (\<forall>r. NodeRef r \<in> set q \<longrightarrow> r \<in> seen')
     \<and> (\<forall>r c. r \<in> seen' \<and> r \<notin> seen \<and> child_of cfg st0 r c \<longrightarrow> c \<in> seen')
     \<and> (\<forall>r e. r \<in> seen' \<and> r \<notin> seen \<and> e \<in> set (edgesOut (st0 (target (st0 r))))
               \<and> followed cfg st0 e \<and> unresolved e
            \<longrightarrow> set (findErrors st0 (Placeholder (placeholder_for st0 e))) \<subseteq> set (errors v'))"
proof (induction cmp cfg st seen q v rule: breadth.induct)
  case (1 cmp cfg st seen v)
  then show ?case
    by auto
next
  case (2 cmp cfg st seen p q v)
  from "2.prems"(1) have
    run: "breadth cmp cfg st seen q (visit st (Placeholder p) v) = Inr ((seen', v'), st')"
    by simp
  note ih = "2.IH" [OF run "2.prems"(2)]
  from ih have "\<forall>r. NodeRef r \<in> set (Placeholder p # q) \<longrightarrow> r \<in> seen'"
    by simp
  moreover note conjunct1 [OF conjunct2 [OF ih]] conjunct2 [OF conjunct2 [OF ih]]
  ultimately show ?case
    by (intro conjI)
next
  case (3 cmp cfg st seen r' q v)
  note f0 = "3.prems"(2)
  show ?case
  proof (cases "r' \<in> seen")
    case True
    with "3.prems"(1) have run: "breadth cmp cfg st seen q v = Inr ((seen', v'), st')"
      by simp
    from breadth_Inr [OF run] True have here: "r' \<in> seen'"
      by auto
    note ih = "3.IH"(1) [OF True run f0]
    from ih here have "\<forall>r. NodeRef r \<in> set (NodeRef r' # q) \<longrightarrow> r \<in> seen'"
      by simp
    moreover note conjunct1 [OF conjunct2 [OF ih]] conjunct2 [OF conjunct2 [OF ih]]
    ultimately show ?thesis
      by (intro conjI)
  next
    case False
    with "3.prems"(1) obtain kids st1 where
      gc: "getChildren cmp cfg st r' = Inr (kids, st1)" and
      run: "breadth cmp cfg st1 (insert r' seen) (q @ kids) (visit st (NodeRef r') v)
              = Inr ((seen', v'), st')"
      by (auto split: sum.splits prod.splits)
    have f1: "same_but_annotations st0 st1"
      using f0 getChildren_Inr(1) [OF gc] by (rule same_but_annotations_trans)
    note ih = "3.IH"(2) [OF False gc refl run f1]
    note queue = conjunct1 [OF ih] and closed = conjunct1 [OF conjunct2 [OF ih]]
      and found = conjunct2 [OF conjunct2 [OF ih]]
    from breadth_Inr [OF run] have here: "r' \<in> seen'"
      by auto
    have kids_closed: "c \<in> seen'" if "child_of cfg st0 r' c" for c
    proof -
      from that have "child_of cfg st r' c"
        by (simp add: child_of_frame [OF f0])
      then have "NodeRef c \<in> set kids"
        by (simp add: getChildren_nodes [OF gc])
      with queue show ?thesis
        by simp
    qed
    have kids_found: "set (findErrors st0 (Placeholder (placeholder_for st0 e))) \<subseteq> set (errors v')"
      if "e \<in> set (edgesOut (st0 (target (st0 r'))))" "followed cfg st0 e" "unresolved e" for e
    proof -
      from that have "e \<in> set (edgesOut (st (target (st r'))))" and "followed cfg st e"
        by (simp_all add: same_but_annotations_fields [OF f0] followed_frame [OF f0])
      from getChildren_placeholder [OF gc this that(3)]
      have "Placeholder (placeholder_for st0 e) \<in> set (q @ kids)"
        by (simp add: placeholder_for_frame [OF f0])
      from breadth_queued_placeholder [OF run this] show ?thesis .
    qed
    from queue here have "\<forall>r. NodeRef r \<in> set (NodeRef r' # q) \<longrightarrow> r \<in> seen'"
      by auto
    moreover from closed kids_closed have
      "\<forall>r c. r \<in> seen' \<and> r \<notin> seen \<and> child_of cfg st0 r c \<longrightarrow> c \<in> seen'"
      by blast
    moreover from found kids_found have
      "\<forall>r e. r \<in> seen' \<and> r \<notin> seen \<and> e \<in> set (edgesOut (st0 (target (st0 r))))
               \<and> followed cfg st0 e \<and> unresolved e
            \<longrightarrow> set (findErrors st0 (Placeholder (placeholder_for st0 e))) \<subseteq> set (errors v')"
      by blast
    ultimately show ?thesis
      by (intro conjI)
  qed
qed

text \<open>Every node that the walk visits is in the graph of the nodes it starts from.\<close>

lemma breadth_visited:
  "breadth cmp cfg st seen q v = Inr ((seen', v'), st') \<Longrightarrow> same_but_annotations st0 st \<Longrightarrow>
   (\<forall>r. NodeRef r \<in> set q \<longrightarrow> R r) \<Longrightarrow>
   (\<forall>r. NodeRef r \<in> snd ` set (seenNodes v) \<longrightarrow> R r) \<Longrightarrow>
   (\<forall>r c. R r \<and> child_of cfg st0 r c \<longrightarrow> R c) \<Longrightarrow>
   (\<forall>r. NodeRef r \<in> snd ` set (seenNodes v') \<longrightarrow> R r)"
proof (induction cmp cfg st seen q v rule: breadth.induct)
  case (1 cmp cfg st seen v)
  then show ?case
    by simp
next
  case (2 cmp cfg st seen p q v)
  from "2.prems"(1) have
    run: "breadth cmp cfg st seen q (visit st (Placeholder p) v) = Inr ((seen', v'), st')"
    by simp
  from "2.prems"(3) have queue: "\<forall>r. NodeRef r \<in> set q \<longrightarrow> R r"
    by simp
  from "2.prems"(4) seenNodes_visit [of st "Placeholder p" v] have
    "\<forall>r. NodeRef r \<in> snd ` set (seenNodes (visit st (Placeholder p) v)) \<longrightarrow> R r"
    by blast
  from "2.IH" [OF run "2.prems"(2) queue this "2.prems"(5)] show ?case .
next
  case (3 cmp cfg st seen r' q v)
  note f0 = "3.prems"(2)
  from "3.prems"(3) have queue: "\<forall>r. NodeRef r \<in> set q \<longrightarrow> R r" and here: "R r'"
    by simp_all
  show ?case
  proof (cases "r' \<in> seen")
    case True
    with "3.prems"(1) have run: "breadth cmp cfg st seen q v = Inr ((seen', v'), st')"
      by simp
    from "3.IH"(1) [OF True run f0 queue "3.prems"(4,5)] show ?thesis .
  next
    case False
    with "3.prems"(1) obtain kids st1 where
      gc: "getChildren cmp cfg st r' = Inr (kids, st1)" and
      run: "breadth cmp cfg st1 (insert r' seen) (q @ kids) (visit st (NodeRef r') v)
              = Inr ((seen', v'), st')"
      by (auto split: sum.splits prod.splits)
    have f1: "same_but_annotations st0 st1"
      using f0 getChildren_Inr(1) [OF gc] by (rule same_but_annotations_trans)
    have "R c" if "NodeRef c \<in> set kids" for c
    proof -
      from that have "child_of cfg st0 r' c"
        by (simp add: getChildren_nodes [OF gc] child_of_frame [OF f0])
      with here "3.prems"(5) show ?thesis
        by blast
    qed
    with queue have queue': "\<forall>r. NodeRef r \<in> set (q @ kids) \<longrightarrow> R r"
      by auto
    from "3.prems"(4) here seenNodes_visit [of st "NodeRef r'" v] have
      "\<forall>r. NodeRef r \<in> snd ` set (seenNodes (visit st (NodeRef r') v)) \<longrightarrow> R r"
      by blast
    from "3.IH"(2) [OF False gc refl run f1 queue' this "3.prems"(5)] show ?thesis .
  qed
qed

subsection \<open>The error gate\<close>

lemma walk_Inr:
  assumes "walk X cfg st tree = Inr ((seen', v'), st')"
  shows "same_but_annotations st st'" and "tree \<in> seen'" and "distinct (errors v')"
proof -
  from assms have
    run: "breadth (localeCompare X) cfg st {} [NodeRef tree] \<lparr>seenNodes = [], errors = []\<rparr>
            = Inr ((seen', v'), st')"
    by (simp add: walk_def)
  from breadth_Inr [OF run] show "same_but_annotations st st'" and "distinct (errors v')"
    by simp_all
  from breadth_closed [OF run same_but_annotations_refl] show "tree \<in> seen'"
    by simp
qed

text \<open>The walk meets every node of the graph of the tree, and visits no other node.\<close>

lemma walk_complete:
  assumes run: "walk X cfg st tree = Inr ((seen', v'), st')"
    and reach: "in_graph cfg st tree r"
  shows "r \<in> seen'"
proof -
  from run have
    b: "breadth (localeCompare X) cfg st {} [NodeRef tree] \<lparr>seenNodes = [], errors = []\<rparr>
          = Inr ((seen', v'), st')"
    by (simp add: walk_def)
  from breadth_closed [OF b same_but_annotations_refl] have
    closed: "\<And>r c. r \<in> seen' \<Longrightarrow> child_of cfg st r c \<Longrightarrow> c \<in> seen'"
    by simp
  from reach have "rtranclp (child_of cfg st) tree r"
    by (simp add: in_graph_def)
  then show ?thesis
  proof (induction rule: rtranclp_induct)
    case base
    from walk_Inr(2) [OF run] show ?case .
  next
    case (step y z)
    from closed [OF step.IH step.hyps(2)] show ?case .
  qed
qed

lemma walk_sound:
  assumes run: "walk X cfg st tree = Inr ((seen', v'), st')"
    and seen: "NodeRef r \<in> snd ` set (seenNodes v')"
  shows "in_graph cfg st tree r"
proof -
  from run have
    b: "breadth (localeCompare X) cfg st {} [NodeRef tree] \<lparr>seenNodes = [], errors = []\<rparr>
          = Inr ((seen', v'), st')"
    by (simp add: walk_def)
  have "\<forall>r. NodeRef r \<in> snd ` set (seenNodes v') \<longrightarrow> in_graph cfg st tree r"
  proof (rule breadth_visited [OF b same_but_annotations_refl])
    show "\<forall>r. NodeRef r \<in> set [NodeRef tree] \<longrightarrow> in_graph cfg st tree r"
      by (simp add: in_graph_def)
    show "\<forall>r. NodeRef r \<in> snd ` set (seenNodes \<lparr>seenNodes = [], errors = []\<rparr>)
              \<longrightarrow> in_graph cfg st tree r"
      by simp
    show "\<forall>r c. in_graph cfg st tree r \<and> child_of cfg st r c \<longrightarrow> in_graph cfg st tree c"
      by (auto simp: in_graph_def)
  qed
  with seen show ?thesis
    by blast
qed

lemma exec_gate:
  assumes "walk X cfg st tree = Inr ((seen', v'), st')" and "truthy (sbom_format cfg)"
    and "errors v' \<noteq> []"
  shows "exec X cyclonedxOutput cfg st h tree
           = Inl (ESBOMPROBLEMS (join (EOL X) (errors v')), st', h)"
  using assms by (simp add: exec_def)

lemma missing_line_found:
  assumes "non_optional e" and "pkgid (st (edge_from e)) \<noteq> []"
  shows "missing_line st e \<in> set (findErrors st (Placeholder (placeholder_for st e)))"
  using assms by (simp add: findErrors_def placeholder_for_def missing_line_def non_optional_def)

lemma walk_reports_missing:
  assumes run: "walk X cfg st tree = Inr ((seen', v'), st')"
    and reach: "in_graph cfg st tree r"
    and edge: "e \<in> set (edgesOut (st (target (st r))))"
    and ws: "filterBySelectedWorkspaces cfg st e = Inr True"
    and om: "edge_type e \<notin> set (omit cfg)"
    and un: "unresolved e" and no: "non_optional e"
    and parent: "pkgid (st (edge_from e)) \<noteq> []"
  shows "missing_line st e \<in> set (errors v')"
proof -
  from run have
    b: "breadth (localeCompare X) cfg st {} [NodeRef tree] \<lparr>seenNodes = [], errors = []\<rparr>
          = Inr ((seen', v'), st')"
    by (simp add: walk_def)
  from ws om have fo: "followed cfg st e"
    by (simp add: followed_def filterByEdgesTypes_def)
  from walk_complete [OF run reach] have "r \<in> seen'" .
  with breadth_closed [OF b same_but_annotations_refl] edge fo un have
    "set (findErrors st (Placeholder (placeholder_for st e))) \<subseteq> set (errors v')"
    by blast
  with missing_line_found [of e st, OF no parent] show ?thesis
    by blast
qed

lemma sublist_join: "l \<in> set ls \<Longrightarrow> sublist l (join sep ls)"
proof (induction sep ls rule: join.induct)
  case (1 sep)
  then show ?case
    by simp
next
  case (2 sep x)
  then show ?case
    by simp
next
  case (3 sep x y ys)
  show ?case
  proof (cases "l = x")
    case True
    then show ?thesis
      by simp
  next
    case False
    with "3.prems" have "l \<in> set (y # ys)"
      by simp
    from "3.IH" [OF this] have "sublist l (join sep (y # ys))" .
    then obtain ps ss where "join sep (y # ys) = ps @ l @ ss"
      by (auto simp: sublist_def)
    then have "join sep (x # y # ys) = (x @ sep @ ps) @ l @ ss"
      by simp
    then show ?thesis
      unfolding sublist_def by blast
  qed
qed


subsection \<open>Runs of the examples\<close>

lemmas example_defs =
  ex_X_def ex_cfg_def ex_root_def ex_node_def ex_edge_def ex_tree_def ex_missing_def
  ex_missing_invalid_def ex_links_def ex_deep_def addr_of_def no_cyclonedx_def

lemmas walk_defs =
  walk_def getChildren_def filterBySelectedWorkspaces_def filterByEdgesTypes_def
  mapEdgesToNodes_def appendExtraneousChildren_def visit_def findErrors_def item_path_def
  item_pkgid_def Set_add_def truthy_def Let_def

lemmas graph_defs =
  in_graph_def child_of_def edge_children_def extraneous_children_def followed_def
  filterBySelectedWorkspaces_def filterByEdgesTypes_def unresolved_def List.map_filter_def

text \<open>
  C1. With \<open>dev\<close> in the omit set, the root's dev dependency \<open>foo@^2.0.0\<close>, which nothing
  resolves, is filtered out before \<open>mapEdgesToNodes\<close> could make its placeholder: no error
  is found and the document of the root alone is built.
\<close>

theorem omitted_missing_dependency_no_error:
  "ex_edge R0 None ''foo'' ''^2.0.0'' ''dev'' \<in> set (edgesOut (ex_missing ''dev'' R0))
   \<and> unresolved (ex_edge R0 None ''foo'' ''^2.0.0'' ''dev'' :: ref edge)
   \<and> non_optional (ex_edge R0 None ''foo'' ''^2.0.0'' ''dev'' :: ref edge)
   \<and> (case exec ex_X no_cyclonedx (ex_cfg\<lparr>omit := [''dev'']\<rparr>) (ex_missing ''dev'') ex_heap R0 of
         Inl err \<Rightarrow> False
       | Inr (CycloneDX d, s) \<Rightarrow> False
       | Inr (SPDX b, s) \<Rightarrow> map p_name (packages b) = [''app''])"
  by (simp add: exec_def buildResponse_def spdxOutput_def toSpdxItem_def item_missing_def
      item_isRoot_def isGitNode_def or_else_def unresolved_def non_optional_def
      example_defs walk_defs)

text \<open>
  C1, as amended. The dependency graph of the tree holds the tree and, with a node, the
  nodes that the followed and resolved edges of its target link to and its extraneous
  children. When the traversal runs to its end (no TypeError), and the target of a node
  of this graph has an edge that nothing resolves, of a kind other than \<open>optional\<close> and
  \<open>peerOptional\<close>, that the workspace filter lets through and whose kind is not in the
  omit set, and the \<open>pkgid\<close> of the requiring node is not empty, then \<open>exec\<close> fails with
  \<open>ESBOMPROBLEMS\<close>, the line of this missing dependency is among the lines of its
  message, and no document is built: the package metadata is as it was.
\<close>

theorem missing_dependency_is_error:
  assumes run: "walk X cfg st tree = Inr ((seen', v'), st')"
    and fmt: "truthy (sbom_format cfg)"
    and reach: "in_graph cfg st tree r"
    and edge: "e \<in> set (edgesOut (st (target (st r))))"
    and ws: "filterBySelectedWorkspaces cfg st e = Inr True"
    and om: "edge_type e \<notin> set (omit cfg)"
    and un: "unresolved e" and no: "non_optional e"
    and parent: "pkgid (st (edge_from e)) \<noteq> []"
  shows "exec X cyclonedxOutput cfg st h tree
           = Inl (ESBOMPROBLEMS (join (EOL X) (errors v')), st', h)
         \<and> missing_line st e \<in> set (errors v')
         \<and> sublist (missing_line st e) (join (EOL X) (errors v'))"
proof -
  from walk_reports_missing [OF run reach edge ws om un no parent] have
    line: "missing_line st e \<in> set (errors v')" .
  then have "errors v' \<noteq> []"
    by auto
  from exec_gate [OF run fmt this] line sublist_join [OF line] show ?thesis
    by simp
qed

theorem missing_dependency_is_error_witness:
  "in_graph (ex_cfg\<lparr>omit := [''dev'']\<rparr>) (ex_deep ''prod'') R0 R1
   \<and> R1 \<noteq> R0
   \<and> ex_edge R1 None ''foo'' ''^2.0.0'' ''prod''
       \<in> set (edgesOut (ex_deep ''prod'' (target (ex_deep ''prod'' R1))))
   \<and> (\<exists>st'. exec ex_X no_cyclonedx (ex_cfg\<lparr>omit := [''dev'']\<rparr>) (ex_deep ''prod'') ex_heap R0
        = Inl (ESBOMPROBLEMS ''missing: foo@^2.0.0, required by left@1.0.0'', st', ex_heap))"
proof -
  obtain st' seen' v' where
    run: "walk ex_X (ex_cfg\<lparr>omit := [''dev'']\<rparr>) (ex_deep ''prod'') R0 = Inr ((seen', v'), st')" and
    errs: "errors v' = [''missing: foo@^2.0.0, required by left@1.0.0'']"
    by (simp add: example_defs walk_defs)
  have fmt: "truthy (sbom_format (ex_cfg\<lparr>omit := [''dev'']\<rparr>))"
    by (simp add: ex_cfg_def truthy_def)
  have "child_of (ex_cfg\<lparr>omit := [''dev'']\<rparr>) (ex_deep ''prod'') R0 R1"
    by (simp add: graph_defs example_defs)
  then have reach: "in_graph (ex_cfg\<lparr>omit := [''dev'']\<rparr>) (ex_deep ''prod'') R0 R1"
    unfolding in_graph_def by (rule r_into_rtranclp)
  have edge: "ex_edge R1 None ''foo'' ''^2.0.0'' ''prod''
                \<in> set (edgesOut (ex_deep ''prod'' (target (ex_deep ''prod'' R1))))"
    by (simp add: example_defs)
  have ws: "filterBySelectedWorkspaces (ex_cfg\<lparr>omit := [''dev'']\<rparr>) (ex_deep ''prod'')
              (ex_edge R1 None ''foo'' ''^2.0.0'' ''prod'') = Inr True"
    by (simp add: filterBySelectedWorkspaces_def example_defs)
  have om: "edge_type (ex_edge R1 None ''foo'' ''^2.0.0'' ''prod'' :: ref edge)
              \<notin> set (omit (ex_cfg\<lparr>omit := [''dev'']\<rparr>))"
    by (simp add: example_defs)
  have un: "unresolved (ex_edge R1 None ''foo'' ''^2.0.0'' ''prod'' :: ref edge)"
    and no: "non_optional (ex_edge R1 None ''foo'' ''^2.0.0'' ''prod'' :: ref edge)"
    by (simp_all add: unresolved_def non_optional_def ex_edge_def)
  have parent: "pkgid (ex_deep ''prod'' (edge_from (ex_edge R1 None ''foo'' ''^2.0.0'' ''prod'')))
                  \<noteq> []"
    by (simp add: example_defs)
  from missing_dependency_is_error [OF run fmt reach edge ws om un no parent,
      of no_cyclonedx ex_heap]
  have "exec ex_X no_cyclonedx (ex_cfg\<lparr>omit := [''dev'']\<rparr>) (ex_deep ''prod'') ex_heap R0
          = Inl (ESBOMPROBLEMS ''missing: foo@^2.0.0, required by left@1.0.0'', st', ex_heap)"
    by (simp add: errs)
  with reach edge show ?thesis
    by blast
qed

text \<open>
  C2. With \<open>dev\<close> in the omit set, the root's dev dependency \<open>foo@^2.0.0\<close>, which nothing
  resolves, stands beside an invalid dependency: \<open>exec\<close> fails, and its message does not
  name \<open>foo@^2.0.0\<close>.
\<close>

theorem omitted_missing_dependency_not_in_message:
  "ex_edge R0 None ''foo'' ''^2.0.0'' ''dev'' \<in> set (edgesOut (ex_missing_invalid R0))
   \<and> unresolved (ex_edge R0 None ''foo'' ''^2.0.0'' ''dev'' :: ref edge)
   \<and> non_optional (ex_edge R0 None ''foo'' ''^2.0.0'' ''dev'' :: ref edge)
   \<and> (case exec ex_X no_cyclonedx (ex_cfg\<lparr>omit := [''dev'']\<rparr>) ex_missing_invalid ex_heap R0 of
         Inl (err, s) \<Rightarrow> err = ESBOMPROBLEMS ''invalid: left@1.0.0 /app/node_modules/left''
       | Inr res \<Rightarrow> False)
   \<and> \<not> sublist ''foo@^2.0.0'' ''invalid: left@1.0.0 /app/node_modules/left''"
  by (simp add: exec_def unresolved_def non_optional_def sublist_Cons_right
      example_defs walk_defs)

text \<open>
  C2, as amended. When the traversal has run to its end and the set of errors is not
  empty, \<open>exec\<close> throws one \<open>ESBOMPROBLEMS\<close> failure whose message is the lines of the set
  joined, and builds no document: the package metadata is as it was. For every edge
  that nothing resolves, of a kind other than \<open>optional\<close> and \<open>peerOptional\<close>, that both
  filters let through at a node of the dependency graph of the tree, with a requiring
  node whose \<open>pkgid\<close> is not empty, the set of errors is not empty and the message
  contains the identifier \<open>name@spec\<close> of the missing package and the \<open>pkgid\<close> of the node
  that requires it.
\<close>

theorem error_gate_message:
  assumes run: "walk X cfg st tree = Inr ((seen', v'), st')"
    and fmt: "truthy (sbom_format cfg)"
  shows "(errors v' \<noteq> [] \<longrightarrow>
            exec X cyclonedxOutput cfg st h tree
              = Inl (ESBOMPROBLEMS (join (EOL X) (errors v')), st', h))
         \<and> (\<forall>r e. in_graph cfg st tree r \<and> e \<in> set (edgesOut (st (target (st r))))
                \<and> filterBySelectedWorkspaces cfg st e = Inr True
                \<and> edge_type e \<notin> set (omit cfg)
                \<and> unresolved e \<and> non_optional e \<and> pkgid (st (edge_from e)) \<noteq> []
              \<longrightarrow> errors v' \<noteq> []
                  \<and> sublist (edge_name e @ ''@'' @ edge_spec e) (join (EOL X) (errors v'))
                  \<and> sublist (pkgid (st (edge_from e))) (join (EOL X) (errors v')))"
proof (intro conjI allI impI)
  assume "errors v' \<noteq> []"
  from exec_gate [OF run fmt this]
  show "exec X cyclonedxOutput cfg st h tree
          = Inl (ESBOMPROBLEMS (join (EOL X) (errors v')), st', h)" .
next
  fix r e
  assume a: "in_graph cfg st tree r \<and> e \<in> set (edgesOut (st (target (st r))))
                \<and> filterBySelectedWorkspaces cfg st e = Inr True
                \<and> edge_type e \<notin> set (omit cfg)
                \<and> unresolved e \<and> non_optional e \<and> pkgid (st (edge_from e)) \<noteq> []"
  then have line: "missing_line st e \<in> set (errors v')"
    using walk_reports_missing [OF run, of r e] by blast
  then show "errors v' \<noteq> []"
    by auto
  from sublist_join [OF line] have m: "sublist (missing_line st e) (join (EOL X) (errors v'))" .
  have "sublist (edge_name e @ ''@'' @ edge_spec e) (missing_line st e)"
    unfolding missing_line_def sublist_def
    by (rule exI [of _ "''missing: ''"], rule exI [of _ "'', required by '' @ pkgid (st (edge_from e))"])
      simp
  with m show "sublist (edge_name e @ ''@'' @ edge_spec e) (join (EOL X) (errors v'))"
    by (rule sublist_order.order_trans [rotated])
  have "sublist (pkgid (st (edge_from e))) (missing_line st e)"
    unfolding missing_line_def sublist_def
    by (rule exI [of _ "''missing: '' @ edge_name e @ ''@'' @ edge_spec e @ '', required by ''"],
        rule exI [of _ "[]"]) simp
  with m show "sublist (pkgid (st (edge_from e))) (join (EOL X) (errors v'))"
    by (rule sublist_order.order_trans [rotated])
qed

theorem error_gate_message_witness:
  "in_graph ex_cfg (ex_deep ''peer'') R0 R1 \<and> R1 \<noteq> R0
   \<and> (\<exists>st'. exec ex_X no_cyclonedx ex_cfg (ex_deep ''peer'') ex_heap R0
        = Inl (ESBOMPROBLEMS ''missing: foo@^2.0.0, required by left@1.0.0'', st', ex_heap))
   \<and> sublist ''foo@^2.0.0'' ''missing: foo@^2.0.0, required by left@1.0.0''
   \<and> sublist ''left@1.0.0'' ''missing: foo@^2.0.0, required by left@1.0.0''"
proof -
  obtain st' seen' v' where
    run: "walk ex_X ex_cfg (ex_deep ''peer'') R0 = Inr ((seen', v'), st')" and
    errs: "errors v' = [''missing: foo@^2.0.0, required by left@1.0.0'']"
    by (simp add: example_defs walk_defs)
  have fmt: "truthy (sbom_format ex_cfg)"
    by (simp add: ex_cfg_def truthy_def)
  have "child_of ex_cfg (ex_deep ''peer'') R0 R1"
    by (simp add: graph_defs example_defs)
  then have reach: "in_graph ex_cfg (ex_deep ''peer'') R0 R1"
    unfolding in_graph_def by (rule r_into_rtranclp)
  have edge: "in_graph ex_cfg (ex_deep ''peer'') R0 R1
       \<and> ex_edge R1 None ''foo'' ''^2.0.0'' ''peer''
                \<in> set (edgesOut (ex_deep ''peer'' (target (ex_deep ''peer'' R1))))
       \<and> filterBySelectedWorkspaces ex_cfg (ex_deep ''peer'')
              (ex_edge R1 None ''foo'' ''^2.0.0'' ''peer'') = Inr True
       \<and> edge_type (ex_edge R1 None ''foo'' ''^2.0.0'' ''peer'' :: ref edge) \<notin> set (omit ex_cfg)
       \<and> unresolved (ex_edge R1 None ''foo'' ''^2.0.0'' ''peer'' :: ref edge)
       \<and> non_optional (ex_edge R1 None ''foo'' ''^2.0.0'' ''peer'' :: ref edge)
       \<and> pkgid (ex_deep ''peer'' (edge_from (ex_edge R1 None ''foo'' ''^2.0.0'' ''peer''))) \<noteq> []"
    using reach
    by (simp add: filterBySelectedWorkspaces_def unresolved_def non_optional_def example_defs)
  from error_gate_message [OF run fmt, of no_cyclonedx ex_heap] have
    gate: "errors v' \<noteq> [] \<longrightarrow>
             exec ex_X no_cyclonedx ex_cfg (ex_deep ''peer'') ex_heap R0
               = Inl (ESBOMPROBLEMS (join (EOL ex_X) (errors v')), st', ex_heap)" and
    msg: "\<forall>r e. in_graph ex_cfg (ex_deep ''peer'') R0 r
                \<and> e \<in> set (edgesOut (ex_deep ''peer'' (target (ex_deep ''peer'' r))))
                \<and> filterBySelectedWorkspaces ex_cfg (ex_deep ''peer'') e = Inr True
                \<and> edge_type e \<notin> set (omit ex_cfg)
                \<and> unresolved e \<and> non_optional e \<and> pkgid (ex_deep ''peer'' (edge_from e)) \<noteq> []
              \<longrightarrow> errors v' \<noteq> []
                  \<and> sublist (edge_name e @ ''@'' @ edge_spec e) (join (EOL ex_X) (errors v'))
                  \<and> sublist (pkgid (ex_deep ''peer'' (edge_from e))) (join (EOL ex_X) (errors v'))"
    by blast+
  from msg edge have
    a: "sublist (edge_name (ex_edge R1 None ''foo'' ''^2.0.0'' ''peer'' :: ref edge) @ ''@''
               @ edge_spec (ex_edge R1 None ''foo'' ''^2.0.0'' ''peer'' :: ref edge))
       (join (EOL ex_X) (errors v'))" and
    b: "sublist (pkgid (ex_deep ''peer'' (edge_from (ex_edge R1 None ''foo'' ''^2.0.0'' ''peer''))))
       (join (EOL ex_X) (errors v'))"
    by blast+
  from gate have
    "exec ex_X no_cyclonedx ex_cfg (ex_deep ''peer'') ex_heap R0
       = Inl (ESBOMPROBLEMS ''missing: foo@^2.0.0, required by left@1.0.0'', st', ex_heap)"
    by (simp add: errs)
  moreover from a have "sublist ''foo@^2.0.0'' ''missing: foo@^2.0.0, required by left@1.0.0''"
    by (simp add: errs example_defs)
  moreover from b have "sublist ''left@1.0.0'' ''missing: foo@^2.0.0, required by left@1.0.0''"
    by (simp add: errs example_defs)
  ultimately show ?thesis
    using reach by blast
qed



section \<open>The whole run\<close>

subsection \<open>What a run changes on the nodes and on their package metadata\<close>

lemma spdxOutput_heap_frame:
  assumes "state_after (spdxOutput X st h nodes pt) = h'"
  shows "rtranclp (normalized X) (h a) (h' a)
         \<and> (a \<notin> package ` st ` {r. NodeRef r \<in> set nodes} \<longrightarrow> h' a = h a)"
proof (cases "find_root st nodes")
  case None
  with assms show ?thesis
    by (simp add: spdxOutput_def state_after_def Let_def)
next
  case (Some root)
  note root = this
  show ?thesis
  proof (cases "npa_escapedName X (pkgid (st root))")
    case None
    with assms root show ?thesis
      by (simp add: spdxOutput_def state_after_def Let_def)
  next
    case (Some esc)
    note esc = this
    show ?thesis
    proof (cases "all_relationships st nodes nodes")
      case (Inl err)
      with assms root esc show ?thesis
        by (simp add: spdxOutput_def state_after_def Let_def)
    next
      case (Inr rels)
      note rels = this
      define h1 where "h1 = state_after (toSpdxItem X st h root pt)"
      from toSpdxItem_heap_frame [OF h1_def [symmetric]] have
        n1: "rtranclp (normalized X) (h a) (h1 a)" and
        f1: "a \<noteq> package (st root) \<longrightarrow> h1 a = h a"
        by simp_all
      from find_root_Some [OF root] have
        f1': "a \<notin> package ` st ` {r. NodeRef r \<in> set nodes} \<longrightarrow> h1 a = h a"
        using f1 by auto
      show ?thesis
      proof (cases "toSpdxItem X st h root pt")
        case (Inl err)
        with assms root esc rels have "h' = h1"
          by (cases err) (simp add: spdxOutput_def state_after_def Let_def h1_def)
        with n1 f1' show ?thesis
          by simp
      next
        case (Inr res)
        obtain p hh where res: "res = (p, hh)"
          by (cases res)
        with Inr have hh: "hh = h1"
          by (simp add: h1_def state_after_def)
        have "state_after (child_items X st h1 (filter (\<lambda>n. \<not> item_isRoot st n) nodes)) = h'"
          using assms root esc rels Inr res hh
          by (cases "child_items X st h1 (filter (\<lambda>n. \<not> item_isRoot st n) nodes)")
            (auto simp: spdxOutput_def state_after_def Let_def)
        from child_items_heap_frame [OF this, of a] have
          n2: "rtranclp (normalized X) (h1 a) (h' a)" and
          f2: "a \<notin> package ` st ` {r. NodeRef r \<in> set (filter (\<lambda>n. \<not> item_isRoot st n) nodes)}
                 \<longrightarrow> h' a = h1 a"
          by simp_all
        from n1 n2 have "rtranclp (normalized X) (h a) (h' a)"
          by (rule rtranclp_trans)
        moreover from f1' f2 have
          "a \<notin> package ` st ` {r. NodeRef r \<in> set nodes} \<longrightarrow> h' a = h a"
          by auto
        ultimately show ?thesis
          by simp
      qed
    qed
  qed
qed

lemma walk_frame: "same_but_annotations st (state_after (walk X cfg st tree))"
  unfolding walk_def by (rule breadth_frame)

lemma exec_frame:
  assumes spdx: "sbom_format cfg \<noteq> Some ''cyclonedx''"
    and res: "state_after (exec X cyclonedxOutput cfg st h tree) = (st', h')"
  shows "same_but_annotations st st'"
    and "rtranclp (normalized X) (h a) (h' a)"
    and "a \<notin> package ` st ` {r. in_graph cfg st tree r} \<Longrightarrow> h' a = h a"
proof -
  have "same_but_annotations st st' \<and> rtranclp (normalized X) (h a) (h' a)
        \<and> (a \<notin> package ` st ` {r. in_graph cfg st tree r} \<longrightarrow> h' a = h a)"
  proof (cases "truthy (sbom_format cfg)")
    case False
    with res show ?thesis
      by (simp add: exec_def state_after_def same_but_annotations_refl)
  next
    case True
    note fmt = this
    show ?thesis
    proof (cases "walk X cfg st tree")
      case (Inl err)
      obtain e s where err: "err = (e, s)"
        by (cases err)
      with Inl fmt res have "st' = s" and "h' = h"
        by (simp_all add: exec_def state_after_def)
      moreover from walk_frame [of st X cfg tree] Inl err have "same_but_annotations st s"
        by (simp add: state_after_def)
      ultimately show ?thesis
        by simp
    next
      case (Inr w)
      obtain seen v s where w: "w = ((seen, v), s)"
        by (cases w) auto
      with Inr have run: "walk X cfg st tree = Inr ((seen, v), s)"
        by simp
      from walk_Inr(1) [OF run] have f: "same_but_annotations st s" .
      show ?thesis
      proof (cases "errors v = []")
        case False
        with run fmt res have "st' = s" and "h' = h"
          by (simp_all add: exec_def state_after_def)
        with f show ?thesis
          by simp
      next
        case True
        define items where "items = filter (\<lambda>n. \<not> item_missing s n) (map snd (seenNodes v))"
        from run fmt True have
          "exec X cyclonedxOutput cfg st h tree = buildResponse X cyclonedxOutput cfg s h items"
          by (simp add: exec_def items_def)
        with res spdx have
          "(st', h') = (s, state_after (spdxOutput X s h items (package_type cfg)))"
          by (cases "spdxOutput X s h items (package_type cfg)")
            (auto simp: buildResponse_def state_after_def)
        then have st': "st' = s" and h': "state_after (spdxOutput X s h items (package_type cfg)) = h'"
          by simp_all
        from spdxOutput_heap_frame [OF h', of a] have
          n: "rtranclp (normalized X) (h a) (h' a)" and
          fr: "a \<notin> package ` s ` {r. NodeRef r \<in> set items} \<longrightarrow> h' a = h a"
          by simp_all
        have "in_graph cfg st tree r" if "NodeRef r \<in> set items" for r
        proof -
          from that have "NodeRef r \<in> snd ` set (seenNodes v)"
            by (auto simp: items_def)
          from walk_sound [OF run this] show ?thesis .
        qed
        then have "package ` s ` {r. NodeRef r \<in> set items}
                     \<subseteq> package ` st ` {r. in_graph cfg st tree r}"
          by (auto simp: same_but_annotations_fields [OF f])
        with fr have "a \<notin> package ` st ` {r. in_graph cfg st tree r} \<longrightarrow> h' a = h a"
          by blast
        with f st' n show ?thesis
          by simp
      qed
    qed
  qed
  then show "same_but_annotations st st'"
    and "rtranclp (normalized X) (h a) (h' a)"
    and "a \<notin> package ` st ` {r. in_graph cfg st tree r} \<Longrightarrow> h' a = h a"
    by simp_all
qed

text \<open>
  C4. The document builder hands \<open>node.package\<close> to \<open>normalizeData\<close>, which works in place:
  with a normaliser that completes the homepage, the package metadata of \<open>left\<close> is
  another after the document is built.
\<close>

theorem spdxOutput_changes_package:
  "homepage (ex_heap (package (ex_tree R1))) = Some ''left.example.com''
   \<and> (case spdxOutput (ex_X\<lparr>normalizeData := ex_normalize\<rparr>) ex_tree ex_heap
              [NodeRef R0, NodeRef R1, NodeRef R2] None of
         Inl err \<Rightarrow> False
       | Inr (b, h') \<Rightarrow> homepage (h' (package (ex_tree R1))) = Some ''http://left.example.com'')"
  by (simp add: spdxOutput_def toSpdxItem_def item_isRoot_def isGitNode_def or_else_def
      truthy_def Let_def ex_normalize_def add_protocol_def ex_heap_def example_defs)

text \<open>
  C4, as amended. For every run, whether it returns or throws. The traversal works on
  the nodes alone and leaves every node as it was but for the properties keyed by
  \<open>_invalid\<close> and \<open>_type\<close> (the one keyed by \<open>_missing\<close> is only ever on the
  placeholders it creates): the edges and the reference to the package metadata are the
  same. The document builder writes to no node; it hands the package metadata of the
  nodes of its list to the normaliser, which works in place: an object that is the
  \<open>package\<close> of no node of the list is as it was, and every object holds what calls of
  the normaliser have made of what it held, also for a node outside the list that shares
  the object with a node of the list. A whole run with a format other than CycloneDX,
  whose builder is no part of the sources, changes the nodes as the traversal does
  and the package metadata as the builder does, and only the metadata of nodes of the
  dependency graph of the tree.
\<close>

theorem run_frame:
  "(same_but_annotations st (state_after (walk X cfg st tree))
    \<and> (\<forall>r. package (state_after (walk X cfg st tree) r) = package (st r)
           \<and> edgesOut (state_after (walk X cfg st tree) r) = edgesOut (st r)
           \<and> sym_missing (state_after (walk X cfg st tree) r) = sym_missing (st r)))
   \<and> (\<forall>a. rtranclp (normalized X) (h a) (state_after (spdxOutput X st h nodes pt) a)
          \<and> (a \<notin> package ` st ` {r. NodeRef r \<in> set nodes}
               \<longrightarrow> state_after (spdxOutput X st h nodes pt) a = h a))
   \<and> (sbom_format cfg \<noteq> Some ''cyclonedx'' \<longrightarrow>
        same_but_annotations st (fst (state_after (exec X cyclonedxOutput cfg st h tree)))
        \<and> (\<forall>a. rtranclp (normalized X) (h a)
                  (snd (state_after (exec X cyclonedxOutput cfg st h tree)) a)
               \<and> (a \<notin> package ` st ` {r. in_graph cfg st tree r}
                    \<longrightarrow> snd (state_after (exec X cyclonedxOutput cfg st h tree)) a = h a)))"
proof (intro conjI allI impI)
  show f: "same_but_annotations st (state_after (walk X cfg st tree))"
    by (rule walk_frame)
  fix r
  from same_but_annotations_fields [OF f]
  show "package (state_after (walk X cfg st tree) r) = package (st r)"
    and "edgesOut (state_after (walk X cfg st tree) r) = edgesOut (st r)"
    and "sym_missing (state_after (walk X cfg st tree) r) = sym_missing (st r)"
    by simp_all
next
  fix a
  from spdxOutput_heap_frame [where X = X and st = st and h = h and nodes = nodes and pt = pt
      and a = a, OF refl]
  show "rtranclp (normalized X) (h a) (state_after (spdxOutput X st h nodes pt) a)"
    by simp
  assume "a \<notin> package ` st ` {r. NodeRef r \<in> set nodes}"
  with spdxOutput_heap_frame [where X = X and st = st and h = h and nodes = nodes and pt = pt
      and a = a, OF refl]
  show "state_after (spdxOutput X st h nodes pt) a = h a"
    by simp
next
  assume spdx: "sbom_format cfg \<noteq> Some ''cyclonedx''"
  obtain st' h' where res: "state_after (exec X cyclonedxOutput cfg st h tree) = (st', h')"
    by (cases "state_after (exec X cyclonedxOutput cfg st h tree)")
  from exec_frame(1) [OF spdx res] res
  show "same_but_annotations st (fst (state_after (exec X cyclonedxOutput cfg st h tree)))"
    by simp
  fix a
  from exec_frame(2) [OF spdx res] res
  show "rtranclp (normalized X) (h a) (snd (state_after (exec X cyclonedxOutput cfg st h tree)) a)"
    by simp
  assume "a \<notin> package ` st ` {r. in_graph cfg st tree r}"
  from exec_frame(3) [OF spdx res this] res
  show "snd (state_after (exec X cyclonedxOutput cfg st h tree)) a = h a"
    by simp
qed

theorem run_frame_witness:
  "(\<exists>b st1 h1. exec (ex_X\<lparr>normalizeData := ex_normalize\<rparr>) no_cyclonedx ex_cfg ex_tree ex_heap R0
        = Inr (SPDX b, st1, h1)
      \<and> st1 R2 = (ex_tree R2)\<lparr> sym_type := Some ''peer'' \<rparr>
      \<and> \<not> in_graph ex_cfg ex_tree R0 R3
      \<and> homepage (ex_heap (package (ex_tree R3))) = Some ''right.example.com''
      \<and> homepage (h1 (package (ex_tree R3))) = Some ''http://right.example.com''
      \<and> same_but_annotations ex_tree st1 \<and> h1 3 = ex_heap 3)
   \<and> (\<exists>st2 h2. exec (ex_X\<lparr>normalizeData := ex_normalize_throws\<rparr>) no_cyclonedx ex_cfg ex_tree
                   ex_heap R0
        = Inl (LibraryError, st2, h2)
      \<and> homepage (h2 1) = Some ''http://left.example.com''
      \<and> same_but_annotations ex_tree st2 \<and> h2 3 = ex_heap 3)"
proof -
  have spdx: "sbom_format ex_cfg \<noteq> Some ''cyclonedx''"
    by (simp add: ex_cfg_def)
  have "package (ex_tree r) \<noteq> 3" for r
    by (cases r) (simp_all add: example_defs)
  then have out: "3 \<notin> package ` ex_tree ` {r. in_graph ex_cfg ex_tree R0 r}"
    by auto
  have closed: "child_of ex_cfg ex_tree r c \<Longrightarrow> r \<noteq> R3 \<Longrightarrow> c \<noteq> R3" for r c
    by (cases r) (auto simp: graph_defs example_defs split: if_splits)
  have "rtranclp (child_of ex_cfg ex_tree) R0 r \<Longrightarrow> r \<noteq> R3" for r
    by (induction rule: rtranclp_induct) (auto dest: closed)
  then have far: "\<not> in_graph ex_cfg ex_tree R0 R3"
    by (auto simp: in_graph_def)
  have shared: "homepage (ex_heap (package (ex_tree R3))) = Some ''right.example.com''"
    by (simp add: ex_heap_def example_defs)
  obtain b st1 h1 where
    run1: "exec (ex_X\<lparr>normalizeData := ex_normalize\<rparr>) no_cyclonedx ex_cfg ex_tree ex_heap R0
             = Inr (SPDX b, st1, h1)" and
    r2: "st1 R2 = (ex_tree R2)\<lparr> sym_type := Some ''peer'' \<rparr>" and
    r3: "homepage (h1 (package (ex_tree R3))) = Some ''http://right.example.com''"
    by (simp add: exec_def buildResponse_def spdxOutput_def toSpdxItem_def item_missing_def
      item_isRoot_def isGitNode_def or_else_def ex_normalize_def add_protocol_def ex_heap_def
      example_defs walk_defs)
  from run1 have s1: "state_after (exec (ex_X\<lparr>normalizeData := ex_normalize\<rparr>) no_cyclonedx ex_cfg
                        ex_tree ex_heap R0) = (st1, h1)"
    by (simp add: state_after_def)
  from run_frame [where X = "ex_X\<lparr>normalizeData := ex_normalize\<rparr>" and cfg = ex_cfg
      and st = ex_tree and h = ex_heap and tree = R0 and cyclonedxOutput = no_cyclonedx] spdx out
  have f1: "same_but_annotations ex_tree st1" and a1: "h1 3 = ex_heap 3"
    by (simp_all add: s1)
  obtain st2 h2 where
    run2: "exec (ex_X\<lparr>normalizeData := ex_normalize_throws\<rparr>) no_cyclonedx ex_cfg ex_tree
             ex_heap R0 = Inl (LibraryError, st2, h2)" and
    l2: "homepage (h2 1) = Some ''http://left.example.com''"
    by (simp add: exec_def buildResponse_def spdxOutput_def toSpdxItem_def item_missing_def
      item_isRoot_def isGitNode_def or_else_def ex_normalize_throws_def add_protocol_def
      ex_heap_def example_defs walk_defs)
  from run2 have s2: "state_after (exec (ex_X\<lparr>normalizeData := ex_normalize_throws\<rparr>) no_cyclonedx
                        ex_cfg ex_tree ex_heap R0) = (st2, h2)"
    by (simp add: state_after_def)
  from run_frame [where X = "ex_X\<lparr>normalizeData := ex_normalize_throws\<rparr>" and cfg = ex_cfg
      and st = ex_tree and h = ex_heap and tree = R0 and cyclonedxOutput = no_cyclonedx] spdx out
  have f2: "same_but_annotations ex_tree st2" and a2: "h2 3 = ex_heap 3"
    by (simp_all add: s2)
  have "\<exists>b st1 h1. exec (ex_X\<lparr>normalizeData := ex_normalize\<rparr>) no_cyclonedx ex_cfg ex_tree ex_heap R0
        = Inr (SPDX b, st1, h1)
      \<and> st1 R2 = (ex_tree R2)\<lparr> sym_type := Some ''peer'' \<rparr>
      \<and> \<not> in_graph ex_cfg ex_tree R0 R3
      \<and> homepage (ex_heap (package (ex_tree R3))) = Some ''right.example.com''
      \<and> homepage (h1 (package (ex_tree R3))) = Some ''http://right.example.com''
      \<and> same_but_annotations ex_tree st1 \<and> h1 3 = ex_heap 3"
    by (intro exI [of _ b] exI [of _ st1] exI [of _ h1] conjI) (rule run1 r2 far shared r3 f1 a1)+
  moreover have "\<exists>st2 h2. exec (ex_X\<lparr>normalizeData := ex_normalize_throws\<rparr>) no_cyclonedx ex_cfg ex_tree
                   ex_heap R0
        = Inl (LibraryError, st2, h2)
      \<and> homepage (h2 1) = Some ''http://left.example.com''
      \<and> same_but_annotations ex_tree st2 \<and> h2 3 = ex_heap 3"
    by (intro exI [of _ st2] exI [of _ h2] conjI) (rule run2 l2 f2 a2)+
  ultimately show ?thesis
    by (rule conjI)
qed

subsection \<open>Two runs on the same tree\<close>

lemma isGitNode_env:
  "isGitNode (X\<lparr>uuid_v4 := u, toISOString_now := t\<rparr>) n = isGitNode X n"
  by (simp add: isGitNode_def)

lemma toSpdxItem_env:
  "toSpdxItem (X\<lparr>uuid_v4 := u, toISOString_now := t\<rparr>) st h r pt = toSpdxItem X st h r pt"
  by (simp add: toSpdxItem_def isGitNode_env Let_def cong: option.case_cong sum.case_cong if_cong)

lemma child_items_env:
  "child_items (X\<lparr>uuid_v4 := u, toISOString_now := t\<rparr>) st h ns = child_items X st h ns"
proof (induction ns arbitrary: h)
  case Nil
  show ?case
    by simp
next
  case (Cons i ns)
  show ?case
  proof (cases i)
    case (Placeholder p)
    then show ?thesis
      by simp
  next
    case (NodeRef r)
    show ?thesis
    proof (cases "toSpdxItem X st h r None")
      case (Inl err)
      with NodeRef show ?thesis
        by (simp add: toSpdxItem_env)
    next
      case (Inr res)
      with NodeRef Cons.IH [of "snd res"] show ?thesis
        by (cases res) (simp add: toSpdxItem_env)
    qed
  qed
qed

lemma spdxOutput_env_Inl:
  "spdxOutput X st h nodes pt = Inl err \<Longrightarrow>
     spdxOutput (X\<lparr>uuid_v4 := u, toISOString_now := t\<rparr>) st h nodes pt = Inl err"
  by (auto simp: spdxOutput_def Let_def toSpdxItem_env child_items_env
      split: option.splits sum.splits prod.splits)

lemma spdxOutput_env_Inr:
  assumes out: "spdxOutput X st h nodes pt = Inr (b, h')"
  shows "\<exists>ns. spdxOutput (X\<lparr>uuid_v4 := u, toISOString_now := t\<rparr>) st h nodes pt
                = Inr (b\<lparr> documentNamespace := ns,
                          creationInfo := (creationInfo b)\<lparr> created := t \<rparr> \<rparr>, h')"
proof -
  from spdxOutput_Inr [OF out] obtain root rootItem h1 items rels escapedName where
    root: "find_root st nodes = Some root" and
    esc: "npa_escapedName X (pkgid (st root)) = Some escapedName" and
    rels: "all_relationships st nodes nodes = Inr rels" and
    item: "toSpdxItem X st h root pt = Inr (rootItem, h1)" and
    items: "child_items X st h1 (filter (\<lambda>n. \<not> item_isRoot st n) nodes) = Inr (items, h')" and
    b: "b = \<lparr> spdxVersion = SPDX_SCHEMA_VERSION,
                   dataLicense = SPDX_DATA_LICENSE,
                   SPDXID = SPDX_IDENTIFER,
                   bom_name = pkgid (st root),
                   documentNamespace =
                     ''http://spdx.org/spdxdocs/'' @ escapedName @ ''-''
                       @ version (st root) @ ''-'' @ uuid_v4 X,
                   creationInfo =
                     \<lparr> created = toISOString_now X,
                       creators = [''Tool: npm/cli-'' @ npm_version X] \<rparr>,
                   documentDescribes = [toSpdxID (pkgid (st root))],
                   packages = rootItem # items,
                   relationships =
                     \<lparr> spdxElementId = SPDX_IDENTIFER,
                       relatedSpdxElement = toSpdxID (pkgid (st root)),
                       relationshipType = ''DESCRIBES'' \<rparr> # rels \<rparr>"
    by blast
  have "spdxOutput (X\<lparr>uuid_v4 := u, toISOString_now := t\<rparr>) st h nodes pt
          = Inr (b\<lparr> documentNamespace :=
                      ''http://spdx.org/spdxdocs/'' @ escapedName @ ''-''
                        @ version (st root) @ ''-'' @ u,
                    creationInfo := (creationInfo b)\<lparr> created := t \<rparr> \<rparr>, h')"
    using root esc rels item items
    by (simp add: spdxOutput_def Let_def toSpdxItem_env child_items_env b)
  then show ?thesis
    by blast
qed

lemma walk_env: "walk (X\<lparr>uuid_v4 := u, toISOString_now := t\<rparr>) cfg st tree = walk X cfg st tree"
  by (simp add: walk_def)

text \<open>
  C6. A second run on the same tree, with another identifier from \<open>uuid.v4()\<close> and
  another time from the clock, fails with the same error when the first run fails, and
  when the first run returns an SPDX document it returns the same document but for the
  document namespace and the time of creation: the package list and the relationship
  list are the same, element for element and in the same order. Both runs leave the
  nodes and their package metadata in the same state. This holds for every tree, so for
  the acyclic ones without missing and invalid edges.
\<close>

theorem exec_two_runs:
  "(exec X cyclonedxOutput cfg st h tree = Inl (err, s) \<longrightarrow>
      exec (X\<lparr>uuid_v4 := u, toISOString_now := t\<rparr>) cyclonedxOutput cfg st h tree = Inl (err, s))
   \<and> (exec X cyclonedxOutput cfg st h tree = Inr (SPDX b, s) \<longrightarrow>
        (\<exists>b'. exec (X\<lparr>uuid_v4 := u, toISOString_now := t\<rparr>) cyclonedxOutput cfg st h tree
                 = Inr (SPDX b', s)
           \<and> packages b' = packages b \<and> relationships b' = relationships b
           \<and> (\<exists>ns. b' = b\<lparr> documentNamespace := ns,
                             creationInfo := (creationInfo b)\<lparr> created := t \<rparr> \<rparr>)))"
proof (intro conjI impI)
  assume fails: "exec X cyclonedxOutput cfg st h tree = Inl (err, s)"
  show "exec (X\<lparr>uuid_v4 := u, toISOString_now := t\<rparr>) cyclonedxOutput cfg st h tree = Inl (err, s)"
  proof (cases "walk X cfg st tree")
    case (Inl e)
    with fails show ?thesis
      by (simp add: exec_def walk_env split: if_splits)
  next
    case (Inr w)
    obtain st' seen v where w: "w = ((seen, v), st')"
      by (cases w) auto
    show ?thesis
    proof (cases "truthy (sbom_format cfg) \<and> errors v = [] \<and> sbom_format cfg \<noteq> Some ''cyclonedx''")
      case False
      with fails Inr w show ?thesis
        by (auto simp: exec_def walk_env buildResponse_def split: if_splits)
    next
      case True
      obtain st1 h1 where s: "s = (st1, h1)"
        by (cases s)
      with True fails Inr w have
        "spdxOutput X st' h (filter (\<lambda>n. \<not> item_missing st' n) (map snd (seenNodes v)))
           (package_type cfg) = Inl (err, h1)" and "st1 = st'"
        by (auto simp: exec_def buildResponse_def split: sum.splits prod.splits)
      from spdxOutput_env_Inl [OF this(1)] this(2) True Inr w s show ?thesis
        by (simp add: exec_def walk_env buildResponse_def)
    qed
  qed
next
  assume ok: "exec X cyclonedxOutput cfg st h tree = Inr (SPDX b, s)"
  then obtain st' seen v where
    run: "walk X cfg st tree = Inr ((seen, v), st')" and
    fmt: "truthy (sbom_format cfg)" and none: "errors v = []" and
    resp: "buildResponse X cyclonedxOutput cfg st' h
             (filter (\<lambda>n. \<not> item_missing st' n) (map snd (seenNodes v))) = Inr (SPDX b, s)"
    by (auto simp: exec_def split: if_splits sum.splits prod.splits)
  from resp have spdx: "sbom_format cfg \<noteq> Some ''cyclonedx''"
    by (auto simp: buildResponse_def split: if_splits sum.splits prod.splits)
  with resp obtain h2 where
    out: "spdxOutput X st' h (filter (\<lambda>n. \<not> item_missing st' n) (map snd (seenNodes v)))
       (package_type cfg) = Inr (b, h2)" and s: "s = (st', h2)"
    by (auto simp: buildResponse_def split: sum.splits prod.splits)
  from spdxOutput_env_Inr [where u = u and t = t, OF out] obtain ns where
    "spdxOutput (X\<lparr>uuid_v4 := u, toISOString_now := t\<rparr>) st' h
       (filter (\<lambda>n. \<not> item_missing st' n) (map snd (seenNodes v))) (package_type cfg)
       = Inr (b\<lparr> documentNamespace := ns,
                 creationInfo := (creationInfo b)\<lparr> created := t \<rparr> \<rparr>, h2)"
    by blast
  with run fmt none spdx s have
    "exec (X\<lparr>uuid_v4 := u, toISOString_now := t\<rparr>) cyclonedxOutput cfg st h tree
       = Inr (SPDX (b\<lparr> documentNamespace := ns,
                       creationInfo := (creationInfo b)\<lparr> created := t \<rparr> \<rparr>), s)"
    by (simp add: exec_def walk_env buildResponse_def)
  then show "\<exists>b'. exec (X\<lparr>uuid_v4 := u, toISOString_now := t\<rparr>) cyclonedxOutput cfg st h tree
                 = Inr (SPDX b', s)
           \<and> packages b' = packages b \<and> relationships b' = relationships b
           \<and> (\<exists>ns. b' = b\<lparr> documentNamespace := ns,
                             creationInfo := (creationInfo b)\<lparr> created := t \<rparr> \<rparr>)"
    by (intro exI [of _ "b\<lparr> documentNamespace := ns,
                       creationInfo := (creationInfo b)\<lparr> created := t \<rparr> \<rparr>"] conjI)
      (simp, simp, simp, blast)
qed

theorem exec_two_runs_witness:
  "\<exists>b b' s. exec ex_X no_cyclonedx ex_cfg ex_tree ex_heap R0 = Inr (SPDX b, s)
      \<and> map p_name (packages b) = [''app'', ''left'', ''right'']
      \<and> documentNamespace b = ''http://spdx.org/spdxdocs/app-1.0.0-u1''
      \<and> exec (ex_X\<lparr>uuid_v4 := ''u2'', toISOString_now := ''t2''\<rparr>) no_cyclonedx ex_cfg ex_tree
           ex_heap R0
          = Inr (SPDX b', s)
      \<and> packages b' = packages b \<and> relationships b' = relationships b"
proof -
  obtain b s where
    run: "exec ex_X no_cyclonedx ex_cfg ex_tree ex_heap R0 = Inr (SPDX b, s)" and
    names: "map p_name (packages b) = [''app'', ''left'', ''right'']" and
    ns: "documentNamespace b = ''http://spdx.org/spdxdocs/app-1.0.0-u1''"
    by (simp add: exec_def buildResponse_def spdxOutput_def toSpdxItem_def item_missing_def
      item_isRoot_def isGitNode_def or_else_def example_defs walk_defs)
  from exec_two_runs [where X = ex_X and cyclonedxOutput = no_cyclonedx and cfg = ex_cfg
      and st = ex_tree and h = ex_heap and tree = R0 and u = "''u2''" and t = "''t2''"
      and b = b and s = s] run
  obtain b' where
    run2: "exec (ex_X\<lparr>uuid_v4 := ''u2'', toISOString_now := ''t2''\<rparr>) no_cyclonedx ex_cfg ex_tree
             ex_heap R0 = Inr (SPDX b', s)" and
    pk: "packages b' = packages b" and rl: "relationships b' = relationships b"
    by blast
  show ?thesis
    by (intro exI [of _ b] exI [of _ b'] exI [of _ s] conjI) (rule run names ns run2 pk rl)+
qed

end
